theory Spec2Isabelle
  imports Main
begin

section \<open>Values exchanged with the server and the phone\<close>

text \<open>
  Request payloads, reply payloads and errors are JavaScript objects. They are opaque to
  the session layer, which only stores and forwards them.
\<close>

datatype json =
    JUndefined
  | JNull
  | JBool bool
  | JNum int
  | JStr string
  | JObj "(string \<times> json) list"

text \<open>What a \<^verbatim>\<open>throw\<close> (or the rejection of an \<^verbatim>\<open>async\<close> function) carries.\<close>

datatype error =
    TypeError string
  | Error string

text \<open>\<^verbatim>\<open>MediaStream\<close> objects belong to the browser; one is known here by its handle.\<close>

type_synonym MediaStream = nat

text \<open>
  \<^verbatim>\<open>SipSession\<close> (sip.ts): the fields that \<^verbatim>\<open>Call.setSip\<close> reads. A connection
  is given by what \<^verbatim>\<open>getLocalStreams()\<close> and \<^verbatim>\<open>getRemoteStreams()\<close> return.
\<close>

record SipSession =
  sessionId :: string
  connection :: "(MediaStream list \<times> MediaStream list) option"

record CallEndpoint =
  endpointType :: string
  number :: "string option"
  endpointId :: "string option"
  name :: "string option"

record QueueParameters =
  attempt_id :: int
  member_id :: int
  queue_id :: int
  queue_name :: string
  queue_type :: string
  side :: string
  resource_id :: "int option"

record CallParams =
  audio :: "bool option"
  video :: "bool option"
  screen :: "bool option"
  disableStun :: "bool option"

text \<open>
  The \<^verbatim>\<open>data\<close> object of a call event. The source casts it, unchecked, to
  \<^verbatim>\<open>CallInfo\<close>, \<^verbatim>\<open>CallBridged\<close>, \<^verbatim>\<open>CallHangup\<close>, \<^verbatim>\<open>CallEventExecute\<close> or
  \<^verbatim>\<open>CallEventDTMF\<close>, so every field of those interfaces may be absent at run time:
  reading an absent field gives \<^verbatim>\<open>undefined\<close>, here \<open>None\<close>.
\<close>

record EventPayload =
  sip_id :: "string option"
  parent_id :: "string option"
  user_id :: "string option"
  d_direction :: "string option"
  d_destination :: "string option"
  d_queue :: "QueueParameters option"
  d_from :: "CallEndpoint option"
  d_to :: "CallEndpoint option"
  d_payload :: "json option"
  d_params :: "CallParams option"
  bridged_id :: "string option"
  cause :: "string option"
  sip_code :: "int option"
  application :: "string option"
  digit :: "string option"

text \<open>\<^verbatim>\<open>CallEventData\<close>: \<^verbatim>\<open>data\<close> is optional, the other fields are not.\<close>

record CallEventData =
  e_id :: string
  app_id :: string
  cc_app_id :: string
  timestamp :: int
  event :: string
  data :: "EventPayload option"

text \<open>The values of the enums \<^verbatim>\<open>CallActions\<close> and \<^verbatim>\<open>CallDirection\<close>.\<close>

definition Ringing :: string where "Ringing = ''ringing''"
definition Active :: string where "Active = ''active''"
definition Bridge :: string where "Bridge = ''bridge''"
definition Hold :: string where "Hold = ''hold''"
definition DTMF :: string where "DTMF = ''dtmf''"
definition Voice :: string where "Voice = ''voice''"
definition Silence :: string where "Silence = ''silence''"
definition Execute :: string where "Execute = ''execute''"
definition Update :: string where "Update = ''update''"
definition Hangup :: string where "Hangup = ''hangup''"
definition PeerStream :: string where "PeerStream = ''peerStream''"
definition LocalStream :: string where "LocalStream = ''localStream''"

definition Inbound :: string where "Inbound = ''inbound''"
definition Outbound :: string where "Outbound = ''outbound''"

section \<open>The Call entity (call.ts)\<close>

text \<open>
  A field the constructor never assigns (\<^verbatim>\<open>bridgedId\<close>, \<^verbatim>\<open>hangupCause\<close>,
  \<^verbatim>\<open>hangupSipCode\<close>) is \<^verbatim>\<open>undefined\<close> until an event sets it, and a field copied
  from the event's data is whatever the data held, so these are options. The three
  timestamps are numbers, 0 until set; they are integers (milliseconds) here.
\<close>

record Call =
  callId :: string
  appId :: string
  sipId :: "string option"
  state :: string
  params :: "CallParams option"
  direction :: "string option"
  destination :: "string option"
  fromEndpoint :: "CallEndpoint option"
  toEndpoint :: "CallEndpoint option"
  payload :: "json option"
  peerStreams :: "MediaStream list option"
  localStreams :: "MediaStream list option"
  sip :: "SipSession option"
  createdAt :: int
  answeredAt :: int
  bridgedAt :: int
  hangupAt :: int
  hangupCause :: "string option"
  hangupSipCode :: "int option"
  parentId :: "string option"
  bridgedId :: "string option"
  queue :: "QueueParameters option"
  muted :: bool
  digits :: "string option list"
  applications :: "string option list"
  voice :: bool

text \<open>JavaScript truthiness of a string that may be \<^verbatim>\<open>undefined\<close>.\<close>

fun truthy :: "string option \<Rightarrow> bool" where
  "truthy None = False"
| "truthy (Some s) = (s \<noteq> [])"

definition setState :: "CallEventData \<Rightarrow> Call \<Rightarrow> Call" where
  "setState s c = c\<lparr>state := event s\<rparr>"

text \<open>
  \<^verbatim>\<open>setSip\<close>: keeps the first session; with a connection, the stream handles are
  those of the connection, \<^verbatim>\<open>null\<close> when it has none.
\<close>

definition nonEmpty :: "'a list \<Rightarrow> 'a list option" where
  "nonEmpty xs = (if xs = [] then None else Some xs)"

definition setSip :: "SipSession option \<Rightarrow> Call \<Rightarrow> Call" where
  "setSip s c =
     (case s of
        None \<Rightarrow> c
      | Some ses \<Rightarrow>
          (if sip c \<noteq> None then c
           else (case connection ses of
                   None \<Rightarrow> c\<lparr>sip := Some ses\<rparr>
                 | Some (local, peer) \<Rightarrow>
                     c\<lparr>sip := Some ses, localStreams := nonEmpty local,
                       peerStreams := nonEmpty peer\<rparr>)))"

definition setInfo :: "EventPayload \<Rightarrow> Call \<Rightarrow> Call" where
  "setInfo s c =
     c\<lparr>parentId := parent_id s,
       destination := d_destination s,
       direction := d_direction s,
       fromEndpoint := d_from s,
       toEndpoint := d_to s,
       payload := d_payload s,
       queue := d_queue s,
       sipId := (if truthy (sip_id s) then sip_id s else None),
       params := d_params s\<rparr>"

text \<open>
  \<^verbatim>\<open>Math.round(n / 1000)\<close> for an integer \<open>n\<close>: the nearest integer, a tie going
  up. The quotient of two integers below \<open>2^53\<close> is at least \<open>1/1000\<close> away from a tie
  unless it is one, so the double division cannot change the result.
\<close>

definition roundSeconds :: "int \<Rightarrow> int" where
  "roundSeconds n = (n + 500) div 1000"

text \<open>The getter \<^verbatim>\<open>duration\<close>; \<open>now\<close> is what \<^verbatim>\<open>Date.now()\<close> returns.\<close>

definition duration :: "int \<Rightarrow> Call \<Rightarrow> int" where
  "duration now c =
     (if hangupAt c = 0 then roundSeconds (now - createdAt c)
      else roundSeconds (hangupAt c - createdAt c))"

definition allowHangup :: "Call \<Rightarrow> bool" where
  "allowHangup c = (hangupAt c = 0)"

definition allowDtmf :: "Call \<Rightarrow> bool" where
  "allowDtmf c = (answeredAt c > 0 \<and> allowHangup c)"

definition allowHold :: "Call \<Rightarrow> bool" where
  "allowHold c = (hangupAt c = 0 \<and> (state c = ''active'' \<or> state c = ''bridge''))"

definition allowAnswer :: "Call \<Rightarrow> bool" where
  "allowAnswer c = (hangupAt c = 0 \<and> answeredAt c = 0)"

definition allowUnHold :: "Call \<Rightarrow> bool" where
  "allowUnHold c = (hangupAt c = 0 \<and> state c = ''hold'')"

definition setActive :: "CallEventData \<Rightarrow> Call \<Rightarrow> Call" where
  "setActive e c =
     setState e
       (if answeredAt c = 0
        then (let c1 = (if direction c = Some Inbound
                        then (let c2 = c\<lparr>bridgedAt := timestamp e\<rparr>
                              in if truthy (parentId c2)
                                 then c2\<lparr>bridgedId := parentId c2\<rparr> else c2)
                        else c)
              in c1\<lparr>answeredAt := timestamp e\<rparr>)
        else c)"

text \<open>
  The setters that read the event's data throw a \<^verbatim>\<open>TypeError\<close> when the event has
  none; what they assigned before that stays assigned, so they return the call as well.
\<close>

definition setBridged :: "CallEventData \<Rightarrow> Call \<Rightarrow> error option \<times> Call" where
  "setBridged s c =
     (let c1 = (if bridgedAt c = 0 then c\<lparr>bridgedAt := timestamp s\<rparr> else c)
      in case data s of
           None \<Rightarrow> (Some (TypeError ''bridged_id of undefined''), c1)
         | Some bridged \<Rightarrow>
             (let c2 = c1\<lparr>bridgedId := bridged_id bridged\<rparr>;
                  c3 = (case d_to bridged of
                          None \<Rightarrow> c2
                        | Some t \<Rightarrow> c2\<lparr>toEndpoint := Some t\<rparr>)
              in (None, c3\<lparr>bridgedId := bridged_id bridged\<rparr>)))"

definition setHold :: "CallEventData \<Rightarrow> Call \<Rightarrow> Call" where
  "setHold e c = setState e c"

definition setPeerStreams :: "MediaStream list option \<Rightarrow> Call \<Rightarrow> Call" where
  "setPeerStreams streams c = c\<lparr>peerStreams := streams\<rparr>"

definition setLocalStreams :: "MediaStream list option \<Rightarrow> Call \<Rightarrow> Call" where
  "setLocalStreams streams c = c\<lparr>localStreams := streams\<rparr>"

definition setVoice :: "Call \<Rightarrow> Call" where
  "setVoice c = c\<lparr>voice := True\<rparr>"

definition setSilence :: "Call \<Rightarrow> Call" where
  "setSilence c = c\<lparr>voice := False\<rparr>"

definition setExecute :: "EventPayload option \<Rightarrow> Call \<Rightarrow> error option \<times> Call" where
  "setExecute s c =
     (case s of
        None \<Rightarrow> (Some (TypeError ''application of undefined''), c)
      | Some x \<Rightarrow> (None, c\<lparr>applications := applications c @ [application x]\<rparr>))"

definition addDigit :: "EventPayload option \<Rightarrow> Call \<Rightarrow> error option \<times> Call" where
  "addDigit s c =
     (case s of
        None \<Rightarrow> (Some (TypeError ''digit of undefined''), c)
      | Some x \<Rightarrow> (None, c\<lparr>digits := digits c @ [digit x]\<rparr>))"

definition setHangup :: "CallEventData \<Rightarrow> Call \<Rightarrow> error option \<times> Call" where
  "setHangup s c =
     (let c1 = c\<lparr>hangupAt := timestamp s\<rparr>
      in case data s of
           None \<Rightarrow> (Some (TypeError ''cause of undefined''), c1)
         | Some hangup \<Rightarrow>
             (None,
              setState s
                (c1\<lparr>hangupCause := cause hangup,
                    hangupSipCode := sip_code hangup,
                    voice := False,
                    peerStreams := None\<rparr>)))"

definition isHold :: "Call \<Rightarrow> bool" where
  "isHold c = (state c = Hold)"

definition active :: "Call \<Rightarrow> bool" where
  "active c = (hangupAt c = 0)"

definition autoAnswer :: "Call \<Rightarrow> bool" where
  "autoAnswer c =
     (case queue c of
        None \<Rightarrow> False
      | Some q \<Rightarrow> queue_type q = ''offline'' \<or> queue_type q = ''preview'')"

section \<open>The collaborators of the session layer\<close>

text \<open>
  \<^verbatim>\<open>Message\<close> (socket.ts): the fields that \<^verbatim>\<open>Client.onMessage\<close> reads. The data
  of a message is an object; the router reads it as a whole (replies, \<^verbatim>\<open>sip\<close> events),
  as \<^verbatim>\<open>ConnectionInfo\<close> (\<^verbatim>\<open>hello\<close>), or reads its fields \<^verbatim>\<open>call\<close>,
  \<^verbatim>\<open>state\<close> and \<^verbatim>\<open>status\<close>.
\<close>

record Session =
  session_id :: string
  expire :: int
  session_user_id :: int
  role_ids :: "int list"

record ConnectionInfo =
  sock_id :: "string option"
  server_build_commit :: "string option"
  server_node_id :: "string option"
  server_version :: "string option"
  server_time :: "int option"
  session :: "Session option"

record MessageData =
  body :: json
  info :: ConnectionInfo
  call :: "CallEventData option"
  user_state :: json
  agent_status :: json

record Message =
  seq_reply :: "int option"
  m_status :: "string option"
  m_data :: "MessageData option"
  m_error :: "json option"
  m_event :: "string option"

definition STATUS_FAIL :: string where "STATUS_FAIL = ''FAIL''"
definition STATUS_OK :: string where "STATUS_OK = ''OK''"

definition WEBSOCKET_AUTHENTICATION_CHALLENGE :: string where
  "WEBSOCKET_AUTHENTICATION_CHALLENGE = ''authentication_challenge''"
definition WEBSOCKET_DEFAULT_DEVICE_CONFIG :: string where
  "WEBSOCKET_DEFAULT_DEVICE_CONFIG = ''user_default_device''"
definition WEBSOCKET_EVENT_HELLO :: string where "WEBSOCKET_EVENT_HELLO = ''hello''"
definition WEBSOCKET_EVENT_CALL :: string where "WEBSOCKET_EVENT_CALL = ''call''"
definition WEBSOCKET_EVENT_USER_STATE :: string where
  "WEBSOCKET_EVENT_USER_STATE = ''user_state''"
definition WEBSOCKET_EVENT_AGENT_STATUS :: string where
  "WEBSOCKET_EVENT_AGENT_STATUS = ''agent_status''"
definition WEBSOCKET_EVENT_QUEUE_JOIN_MEMBER :: string where
  "WEBSOCKET_EVENT_QUEUE_JOIN_MEMBER = ''queue_join_member''"
definition WEBSOCKET_EVENT_SIP :: string where "WEBSOCKET_EVENT_SIP = ''sip''"

text \<open>The frame that \<^verbatim>\<open>Client.request\<close> hands to the socket.\<close>

record Frame =
  seq :: nat
  action :: string
  frame_data :: json

text \<open>
  \<^verbatim>\<open>Log\<close> (log.ts) is a sink. An entry records which call of the source wrote it:
  \<^item> \<open>ReceiveMessage\<close>: \<^verbatim>\<open>log.debug('receive message: ', message)\<close>;
  \<^item> \<open>OpenedSession\<close>: \<^verbatim>\<open>log.debug(`opened session ... for userId=...`)\<close>;
  \<^item> \<open>EventNotHandler\<close>: \<^verbatim>\<open>log.error(`event ${message.event} not handler`)\<close>;
  \<^item> \<open>Caught\<close>: \<^verbatim>\<open>log.error(e)\<close> in the \<^verbatim>\<open>catch\<close> of \<^verbatim>\<open>connected\<close>.
\<close>

datatype LogEntry =
    ReceiveMessage Message
  | OpenedSession "string option" int
  | EventNotHandler "string option"
  | Caught "json option"

fun isError :: "LogEntry \<Rightarrow> bool" where
  "isError (ReceiveMessage _) = False"
| "isError (OpenedSession _ _) = False"
| "isError (EventNotHandler _) = True"
| "isError (Caught _) = True"

record AnswerRequest =
  req_audio :: "bool option"
  req_video :: "bool option"
  req_screen :: "bool option"
  req_disableStun :: "bool option"

text \<open>
  Modelled from the spec: \<^verbatim>\<open>SipPhone\<close> (sip.ts is not among the sources), the phone
  collaborator of section 6. It is known by what the session layer passes to it and
  reads from it: the arguments of its constructor, the sessions that
  \<^verbatim>\<open>sipSessionBySipId\<close> and \<^verbatim>\<open>sipSessionByCallId\<close> find, the configurations given to
  \<^verbatim>\<open>register\<close>, and the sessions answered, each with the request that
  \<^verbatim>\<open>callOption\<close> received. \<^verbatim>\<open>callOption\<close> and \<^verbatim>\<open>register\<close> are taken to
  complete at once and without error.
\<close>

record SipPhone =
  phoneInstanceId :: "string option"
  phoneDebug :: "bool option"
  sessionsBySipId :: "(string \<times> SipSession) list"
  sessionsByCallId :: "(string \<times> SipSession) list"
  registered :: "MessageData option list"
  answered :: "(string \<times> AnswerRequest) list"

definition newSipPhone :: "string option \<Rightarrow> bool option \<Rightarrow> SipPhone" where
  "newSipPhone i d =
     \<lparr>phoneInstanceId = i, phoneDebug = d, sessionsBySipId = [], sessionsByCallId = [],
      registered = [], answered = []\<rparr>"

definition sipSessionBySipId :: "SipPhone \<Rightarrow> string \<Rightarrow> SipSession option" where
  "sipSessionBySipId ph i = map_of (sessionsBySipId ph) i"

definition sipSessionByCallId :: "SipPhone \<Rightarrow> string \<Rightarrow> SipSession option" where
  "sipSessionByCallId ph i = map_of (sessionsByCallId ph) i"

record Config =
  endpoint :: string
  token :: "string option"
  registerWebDevice :: "bool option"
  debug :: "bool option"

section \<open>The client (client.ts)\<close>

text \<open>
  A consumer's callback is known by a handle. The \<^verbatim>\<open>EventEmitter\<close> of ee-ts keeps,
  for each event name, the listeners in the order of their registration, and
  \<^verbatim>\<open>emit\<close> calls each of them with the arguments given; the model records each call.
\<close>

type_synonym Handler = nat

datatype EmitArgs =
    CallArgs string nat
  | DataArgs "MessageData option"
  | ValueArgs json

text \<open>
  A promise made by \<^verbatim>\<open>request\<close>, and what an \<^verbatim>\<open>async\<close> method of the source
  does when the promise it awaits is fulfilled:
  \<^item> \<open>OnSubscribe\<close>: the \<^verbatim>\<open>subscribe...\<close> methods register the handler;
  \<^item> \<open>SetMuted\<close>: \<^verbatim>\<open>Call.mute\<close> assigns \<^verbatim>\<open>_muted\<close> of its call;
  \<^item> \<open>RegisterDevice\<close>: \<^verbatim>\<open>connected\<close> registers the phone, and
    \<^verbatim>\<open>onMessage\<close> then logs the opened session;
  \<^item> \<open>Return\<close>: the method only returns the result (\<^verbatim>\<open>unSubscribe\<close>).
\<close>

datatype Settlement =
    Pending
  | Resolved "MessageData option"
  | Rejected "json option"

datatype Continuation =
    OnSubscribe string Handler
  | SetMuted nat bool
  | RegisterDevice
  | Return

text \<open>
  The fields of \<^verbatim>\<open>Client\<close>, then the objects they refer to: \<open>heap\<close> holds the
  \<^verbatim>\<open>Call\<close> objects by reference, so that the registry and a consumer can hold the same
  object; \<open>promises\<close> holds the promises; \<open>awaiting\<close> the suspended \<^verbatim>\<open>async\<close>
  methods; \<open>invoked\<close> the calls of handlers made so far; \<open>documentHidden\<close> is
  \<^verbatim>\<open>document.hidden\<close>. The socket is known by the frames sent
  (Modelled from the spec: \<^verbatim>\<open>Socket.send\<close>, socket.ts is not among the sources; the
  transport adapter of section 6 accepts every frame).
\<close>

record Client =
  config :: Config
  phone :: "SipPhone option"
  socket :: "Frame list"
  connectionInfo :: "ConnectionInfo option"
  reqSeq :: nat
  queueRequest :: "nat \<rightharpoonup> nat"
  log :: "LogEntry list"
  eventHandler :: "(string \<times> Handler) list"
  callStore :: "string \<rightharpoonup> nat"
  heap :: "nat \<rightharpoonup> Call"
  nextRef :: nat
  promises :: "nat \<rightharpoonup> Settlement"
  nextPromise :: nat
  awaiting :: "nat \<rightharpoonup> Continuation"
  invoked :: "(Handler \<times> string \<times> EmitArgs) list"
  documentHidden :: bool

text \<open>The constructor of \<^verbatim>\<open>Client\<close>.\<close>

definition newClient :: "Config \<Rightarrow> bool \<Rightarrow> Client" where
  "newClient cfg hidden =
     \<lparr>config = cfg, phone = None, socket = [], connectionInfo = None, reqSeq = 0,
      queueRequest = Map.empty, log = [], eventHandler = [], callStore = Map.empty,
      heap = Map.empty, nextRef = 0, promises = Map.empty, nextPromise = 0,
      awaiting = Map.empty, invoked = [], documentHidden = hidden\<rparr>"

definition on :: "string \<Rightarrow> Handler \<Rightarrow> Client \<Rightarrow> Client" where
  "on key h c = c\<lparr>eventHandler := eventHandler c @ [(key, h)]\<rparr>"

definition listeners :: "string \<Rightarrow> Client \<Rightarrow> Handler list" where
  "listeners key c = map snd (filter (\<lambda>kh. fst kh = key) (eventHandler c))"

definition emit :: "string \<Rightarrow> EmitArgs \<Rightarrow> Client \<Rightarrow> Client" where
  "emit key args c =
     c\<lparr>invoked := invoked c @ map (\<lambda>h. (h, key, args)) (listeners key c)\<rparr>"

text \<open>
  \<^verbatim>\<open>request\<close>: a new promise, the next sequence number, the pending entry under
  that number, and the frame sent. It returns the promise.
\<close>

definition request :: "string \<Rightarrow> json \<Rightarrow> Client \<Rightarrow> nat \<times> Client" where
  "request act d c =
     (let p = nextPromise c;
          n = Suc (reqSeq c)
      in (p, c\<lparr>promises := (promises c)(p \<mapsto> Pending),
                nextPromise := Suc p,
                reqSeq := n,
                queueRequest := (queueRequest c)(n \<mapsto> p),
                socket := socket c @ [\<lparr>seq = n, action = act, frame_data = d\<rparr>]\<rparr>))"

text \<open>An \<^verbatim>\<open>async\<close> method that awaits a request and then continues with \<open>k\<close>.\<close>

definition requestThen ::
  "string \<Rightarrow> json \<Rightarrow> Continuation \<Rightarrow> Client \<Rightarrow> nat \<times> Client" where
  "requestThen act d k c =
     (case request act d c of
        (p, c1) \<Rightarrow> (p, c1\<lparr>awaiting := (awaiting c1)(p \<mapsto> k)\<rparr>))"

definition subscribeCall :: "Handler \<Rightarrow> json \<Rightarrow> Client \<Rightarrow> nat \<times> Client" where
  "subscribeCall h d c =
     requestThen ''subscribe_call'' d (OnSubscribe WEBSOCKET_EVENT_CALL h) c"

definition subscribeQueueJoinMember :: "Handler \<Rightarrow> json \<Rightarrow> Client \<Rightarrow> nat \<times> Client" where
  "subscribeQueueJoinMember h d c =
     requestThen ''subscribe_queue_join_member'' d
       (OnSubscribe WEBSOCKET_EVENT_QUEUE_JOIN_MEMBER h) c"

definition subscribeUsersStatus :: "Handler \<Rightarrow> json \<Rightarrow> Client \<Rightarrow> nat \<times> Client" where
  "subscribeUsersStatus h d c =
     requestThen ''subscribe_users_status'' d (OnSubscribe WEBSOCKET_EVENT_USER_STATE h) c"

definition subscribeAgentsStatus :: "Handler \<Rightarrow> json \<Rightarrow> Client \<Rightarrow> nat \<times> Client" where
  "subscribeAgentsStatus h d c =
     requestThen ''cc_agent_subscribe_status'' d
       (OnSubscribe WEBSOCKET_EVENT_AGENT_STATUS h) c"

text \<open>
  \<^verbatim>\<open>unSubscribe\<close>: the request, and nothing after it; the three lines that would
  remove the listener are comments in the source.
\<close>

definition unSubscribe :: "string \<Rightarrow> Handler \<Rightarrow> json \<Rightarrow> Client \<Rightarrow> nat \<times> Client" where
  "unSubscribe act h d c = requestThen (''un_subscribe_'' @ act) d Return c"

definition callById :: "Client \<Rightarrow> string \<Rightarrow> nat option" where
  "callById c i = callStore c i"

definition useWebPhone :: "Client \<Rightarrow> bool" where
  "useWebPhone c = (registerWebDevice (config c) = Some True)"

definition deviceConfig :: "Continuation \<Rightarrow> Client \<Rightarrow> nat \<times> Client" where
  "deviceConfig k c = requestThen WEBSOCKET_DEFAULT_DEVICE_CONFIG (JObj []) k c"

text \<open>
  The constructor of \<^verbatim>\<open>Call\<close>. It reads \<^verbatim>\<open>sip_id\<close> of the event's data and asks
  the client's phone for the session, so it throws when the event has no data or the
  client has no phone yet. The streams that \<^verbatim>\<open>setSip\<close> found are set to \<^verbatim>\<open>null\<close>
  again by the assignments that follow it.
\<close>

definition blankCall :: "CallEventData \<Rightarrow> Call" where
  "blankCall e =
     \<lparr>callId = [], appId = [], sipId = None, state = [], params = None,
      direction = None, destination = None, fromEndpoint = None, toEndpoint = None,
      payload = None, peerStreams = None, localStreams = None, sip = None,
      createdAt = timestamp e, answeredAt = 0, bridgedAt = 0, hangupAt = 0,
      hangupCause = None, hangupSipCode = None, parentId = None, bridgedId = None,
      queue = None, muted = False, digits = [], applications = [], voice = True\<rparr>"

definition newCall :: "Client \<Rightarrow> CallEventData \<Rightarrow> error + Call" where
  "newCall client e =
     (case data e of
        None \<Rightarrow> Inl (TypeError ''sip_id of undefined'')
      | Some callInfo \<Rightarrow>
          (case phone client of
             None \<Rightarrow>
               Inl (TypeError (if truthy (sip_id callInfo)
                               then ''sipSessionBySipId of undefined''
                               else ''sipSessionByCallId of undefined''))
           | Some ph \<Rightarrow>
               (let c0 = blankCall e;
                    c1 = (case sip_id callInfo of
                            None \<Rightarrow> setSip (sipSessionByCallId ph (e_id e)) c0
                          | Some i \<Rightarrow>
                              (if i \<noteq> [] then setSip (sipSessionBySipId ph i) c0
                               else setSip (sipSessionByCallId ph (e_id e)) c0));
                    c2 = c1\<lparr>peerStreams := None, localStreams := None,
                            params := Some \<lparr>audio = None, video = None, screen = None,
                                            disableStun = None\<rparr>,
                            callId := e_id e, digits := [], applications := [],
                            appId := app_id e\<rparr>
                in Inr (setInfo callInfo (setState e c2)))))"

text \<open>
  \<^verbatim>\<open>Call.answer\<close>, as \<^verbatim>\<open>checkAutoAnswer\<close> uses it: with a session, the phone
  answers it.
\<close>

definition answer :: "AnswerRequest \<Rightarrow> Call \<Rightarrow> Client \<Rightarrow> error option \<times> Client" where
  "answer req cl c =
     (case sip cl of
        None \<Rightarrow> (None, c)
      | Some ses \<Rightarrow>
          (case phone c of
             None \<Rightarrow> (Some (TypeError ''callOption of undefined''), c)
           | Some ph \<Rightarrow>
               (None, c\<lparr>phone := Some (ph\<lparr>answered := answered ph @ [(sessionId ses, req)]\<rparr>)\<rparr>)))"

definition checkAutoAnswer :: "Call \<Rightarrow> Client \<Rightarrow> error option \<times> Client" where
  "checkAutoAnswer cl c =
     (if \<not> documentHidden c \<and> autoAnswer cl
      then (case params cl of
              None \<Rightarrow> (Some (TypeError ''video of undefined''), c)
            | Some ps \<Rightarrow>
                answer \<lparr>req_audio = None, req_video = video ps, req_screen = screen ps,
                        req_disableStun = disableStun ps\<rparr> cl c)
      else (None, c))"

text \<open>
  The cases of \<^verbatim>\<open>handleCallEvents\<close> other than \<^verbatim>\<open>ringing\<close> have one shape: look
  the call up; if there is one, apply the setter to that object. \<open>onCall\<close> is that
  shape; it returns the reference of the call (\<^verbatim>\<open>call\<close> in the source) as well.
\<close>

definition onCall ::
  "string \<Rightarrow> (Call \<Rightarrow> error option \<times> Call) \<Rightarrow> Client \<Rightarrow> error option \<times> nat option \<times> Client" where
  "onCall i f c =
     (case callById c i of
        None \<Rightarrow> (None, None, c)
      | Some r \<Rightarrow>
          (case heap c r of
             None \<Rightarrow> (Some (TypeError ''undefined is not an object''), Some r, c)
           | Some cl \<Rightarrow>
               (case f cl of
                  (err, cl') \<Rightarrow> (err, Some r, c\<lparr>heap := (heap c)(r \<mapsto> cl')\<rparr>))))"

text \<open>After the \<^verbatim>\<open>switch\<close>: \<^verbatim>\<open>if (call) emit('call', event.event, call)\<close>.\<close>

definition emitCall :: "CallEventData \<Rightarrow> nat option \<Rightarrow> Client \<Rightarrow> Client" where
  "emitCall e r c =
     (case r of
        None \<Rightarrow> c
      | Some a \<Rightarrow> emit WEBSOCKET_EVENT_CALL (CallArgs (event e) a) c)"

definition finish ::
  "CallEventData \<Rightarrow> error option \<times> nat option \<times> Client \<Rightarrow> error option \<times> Client" where
  "finish e res =
     (case res of
        (Some err, r, c) \<Rightarrow> (Some err, c)
      | (None, r, c) \<Rightarrow> (None, emitCall e r c))"

definition noThrow :: "(Call \<Rightarrow> Call) \<Rightarrow> Call \<Rightarrow> error option \<times> Call" where
  "noThrow f cl = (None, f cl)"

definition handleCallEvents :: "CallEventData \<Rightarrow> Client \<Rightarrow> error option \<times> Client" where
  "handleCallEvents e c =
     (if event e = Ringing then
        (case newCall c e of
           Inl err \<Rightarrow> (Some err, c)
         | Inr cl \<Rightarrow>
             (let r = nextRef c;
                  c1 = c\<lparr>heap := (heap c)(r \<mapsto> cl), nextRef := Suc r,
                          callStore := (callStore c)(callId cl \<mapsto> r)\<rparr>
              in case checkAutoAnswer cl c1 of
                   (err, c2) \<Rightarrow> finish e (err, Some r, c2)))
      else if event e = Active then finish e (onCall (e_id e) (noThrow (setActive e)) c)
      else if event e = Bridge then finish e (onCall (e_id e) (setBridged e) c)
      else if event e = Execute then finish e (onCall (e_id e) (setExecute (data e)) c)
      else if event e = DTMF then finish e (onCall (e_id e) (addDigit (data e)) c)
      else if event e = Voice then finish e (onCall (e_id e) (noThrow setVoice) c)
      else if event e = Silence then finish e (onCall (e_id e) (noThrow setSilence) c)
      else if event e = Hold then finish e (onCall (e_id e) (noThrow (setHold e)) c)
      else if event e = Hangup then
        (case callById c (e_id e) of
           None \<Rightarrow> (None, c)
         | Some r \<Rightarrow>
             (case heap c r of
                None \<Rightarrow> (Some (TypeError ''undefined is not an object''), c)
              | Some cl \<Rightarrow>
                  (case setHangup e cl of
                     (Some err, cl') \<Rightarrow> (Some err, c\<lparr>heap := (heap c)(r \<mapsto> cl')\<rparr>)
                   | (None, cl') \<Rightarrow>
                       (None,
                        emitCall e (Some r)
                          (c\<lparr>heap := (heap c)(r \<mapsto> cl'),
                             callStore := (callStore c)(callId cl' := None)\<rparr>)))))
      else (Some (Error ''Unhandled action''), c))"

definition handleUserStateEvent :: "json \<Rightarrow> Client \<Rightarrow> Client" where
  "handleUserStateEvent ev c = emit WEBSOCKET_EVENT_USER_STATE (ValueArgs ev) c"

text \<open>
  \<^verbatim>\<open>connected\<close>: the connection info, a new phone, and with a web phone the request
  for the device's configuration, whose reply the method awaits. The second component
  says whether the method has returned (\<open>True\<close>) or is suspended at that
  \<^verbatim>\<open>await\<close> (\<open>False\<close>).
\<close>

definition connected :: "MessageData option \<Rightarrow> Client \<Rightarrow> error option \<times> bool \<times> Client" where
  "connected d c =
     (case d of
        None \<Rightarrow> (Some (TypeError ''sock_id of undefined''), True, c\<lparr>connectionInfo := None\<rparr>)
      | Some md \<Rightarrow>
          (let c1 = c\<lparr>connectionInfo := Some (info md)\<rparr>;
               c2 = c1\<lparr>phone := Some (newSipPhone (sock_id (info md)) (debug (config c1)))\<rparr>
           in if useWebPhone c2
              then (None, False, snd (deviceConfig RegisterDevice c2))
              else (None, True, c2)))"

text \<open>The \<^verbatim>\<open>log.debug\<close> of \<^verbatim>\<open>onMessage\<close> after \<^verbatim>\<open>connected\<close> has returned.\<close>

definition logOpened :: "Client \<Rightarrow> error option \<times> Client" where
  "logOpened c =
     (case connectionInfo c of
        None \<Rightarrow> (Some (TypeError ''sock_id of undefined''), c)
      | Some ci \<Rightarrow>
          (case session ci of
             None \<Rightarrow> (Some (TypeError ''user_id of undefined''), c)
           | Some s \<Rightarrow>
               (None, c\<lparr>log := log c @ [OpenedSession (sock_id ci) (session_user_id s)]\<rparr>)))"

text \<open>
  What a suspended method does when its promise is fulfilled with \<open>v\<close>, and when it is
  rejected with \<open>e\<close>: only \<^verbatim>\<open>connected\<close> catches the rejection.
\<close>

definition resume :: "Continuation \<Rightarrow> MessageData option \<Rightarrow> Client \<Rightarrow> Client" where
  "resume k v c =
     (case k of
        OnSubscribe key h \<Rightarrow> on key h c
      | SetMuted r m \<Rightarrow>
          (case heap c r of
             None \<Rightarrow> c
           | Some cl \<Rightarrow> c\<lparr>heap := (heap c)(r \<mapsto> cl\<lparr>muted := m\<rparr>)\<rparr>)
      | RegisterDevice \<Rightarrow>
          (case phone c of
             None \<Rightarrow> snd (logOpened (c\<lparr>log := log c @ [Caught None]\<rparr>))
           | Some ph \<Rightarrow>
               snd (logOpened (c\<lparr>phone := Some (ph\<lparr>registered := registered ph @ [v]\<rparr>)\<rparr>)))
      | Return \<Rightarrow> c)"

definition abandon :: "Continuation \<Rightarrow> json option \<Rightarrow> Client \<Rightarrow> Client" where
  "abandon k e c =
     (case k of
        RegisterDevice \<Rightarrow> snd (logOpened (c\<lparr>log := log c @ [Caught e]\<rparr>))
      | _ \<Rightarrow> c)"

text \<open>
  The \<^verbatim>\<open>resolve\<close> and \<^verbatim>\<open>reject\<close> of a promise: a pending promise is settled and
  the method awaiting it goes on; a settled promise stays as it is.
\<close>

definition resolve :: "nat \<Rightarrow> MessageData option \<Rightarrow> Client \<Rightarrow> Client" where
  "resolve p v c =
     (case promises c p of
        Some Pending \<Rightarrow>
          (let c1 = c\<lparr>promises := (promises c)(p \<mapsto> Resolved v)\<rparr>
           in case awaiting c1 p of
                None \<Rightarrow> c1
              | Some k \<Rightarrow> resume k v (c1\<lparr>awaiting := (awaiting c1)(p := None)\<rparr>))
      | _ \<Rightarrow> c)"

definition reject :: "nat \<Rightarrow> json option \<Rightarrow> Client \<Rightarrow> Client" where
  "reject p e c =
     (case promises c p of
        Some Pending \<Rightarrow>
          (let c1 = c\<lparr>promises := (promises c)(p \<mapsto> Rejected e)\<rparr>
           in case awaiting c1 p of
                None \<Rightarrow> c1
              | Some k \<Rightarrow> abandon k e (c1\<lparr>awaiting := (awaiting c1)(p := None)\<rparr>))
      | _ \<Rightarrow> c)"

text \<open>
  \<^verbatim>\<open>onMessage\<close>. \<open>isReply\<close> is the test \<^verbatim>\<open>message.seq_reply! > 0\<close>, which
  \<^verbatim>\<open>undefined\<close> fails; \<open>replyKey\<close> is the key looked up in
  \<^verbatim>\<open>queueRequest\<close>, whose keys are the numbers that \<^verbatim>\<open>request\<close> assigned. The result \<open>Some err\<close> is the rejection of the promise
  that this \<^verbatim>\<open>async\<close> method returns.
\<close>

definition isReply :: "Message \<Rightarrow> bool" where
  "isReply message = (case seq_reply message of None \<Rightarrow> False | Some n \<Rightarrow> n > 0)"

definition replyKey :: "Message \<Rightarrow> nat" where
  "replyKey message = (case seq_reply message of None \<Rightarrow> 0 | Some n \<Rightarrow> nat n)"

definition onMessage :: "Message \<Rightarrow> Client \<Rightarrow> error option \<times> Client" where
  "onMessage message c0 =
     (let c = c0\<lparr>log := log c0 @ [ReceiveMessage message]\<rparr>
      in if isReply message then
           (case queueRequest c (replyKey message) of
              None \<Rightarrow> (None, c)
            | Some promise \<Rightarrow>
                (let c1 = c\<lparr>queueRequest := (queueRequest c)(replyKey message := None)\<rparr>
                 in if m_status message = Some STATUS_OK
                    then (None, resolve promise (m_data message) c1)
                    else (None, reject promise (m_error message) c1)))
         else if m_event message = Some WEBSOCKET_EVENT_HELLO then
           (case connected (m_data message) c of
              (Some err, b, c1) \<Rightarrow> (Some err, c1)
            | (None, False, c1) \<Rightarrow> (None, c1)
            | (None, True, c1) \<Rightarrow> logOpened c1)
         else if m_event message = Some WEBSOCKET_EVENT_CALL then
           (case m_data message of
              None \<Rightarrow> (Some (TypeError ''call of undefined''), c)
            | Some md \<Rightarrow>
                (case call md of
                   None \<Rightarrow> (Some (TypeError ''event of undefined''), c)
                 | Some ev \<Rightarrow> handleCallEvents ev c))
         else if m_event message = Some WEBSOCKET_EVENT_USER_STATE then
           (case m_data message of
              None \<Rightarrow> (Some (TypeError ''state of undefined''), c)
            | Some md \<Rightarrow> (None, handleUserStateEvent (user_state md) c))
         else if m_event message = Some WEBSOCKET_EVENT_SIP then
           (None, emit WEBSOCKET_EVENT_SIP (DataArgs (m_data message)) c)
         else if m_event message = Some WEBSOCKET_EVENT_AGENT_STATUS then
           (case m_data message of
              None \<Rightarrow> (Some (TypeError ''status of undefined''), c)
            | Some md \<Rightarrow>
                (None, emit WEBSOCKET_EVENT_AGENT_STATUS (ValueArgs (agent_status md)) c))
         else (None, c\<lparr>log := log c @ [EventNotHandler (m_event message)]\<rparr>))"

section \<open>Call control (call.ts)\<close>

text \<open>
  The control methods are called on a \<^verbatim>\<open>Call\<close> object, here on its reference. A
  method that throws before it sends (\<^verbatim>\<open>hold\<close>, \<^verbatim>\<open>unHold\<close>) returns \<open>Inl\<close>;
  otherwise it returns the promise of the request.
\<close>

definition callRef :: "Call \<Rightarrow> json" where
  "callRef cl = JObj [(''id'', JStr (callId cl)), (''app_id'', JStr (appId cl))]"

definition hold :: "Call \<Rightarrow> Client \<Rightarrow> (error + nat) \<times> Client" where
  "hold cl c =
     (if state cl = Hold then (Inl (Error ''Call is hold''), c)
      else (case request ''call_hold'' (callRef cl) c of (p, c1) \<Rightarrow> (Inr p, c1)))"

definition unHold :: "Call \<Rightarrow> Client \<Rightarrow> (error + nat) \<times> Client" where
  "unHold cl c =
     (if state cl \<noteq> Hold then (Inl (Error ''Call is active''), c)
      else (case request ''call_unhold'' (callRef cl) c of (p, c1) \<Rightarrow> (Inr p, c1)))"

definition toggleHold :: "Call \<Rightarrow> Client \<Rightarrow> (error + nat) \<times> Client" where
  "toggleHold cl c = (if state cl = Hold then unHold cl c else hold cl c)"


section \<open>Runs and examples\<close>

text \<open>
  What happens to a client, one at a time: a request is issued, by \<^verbatim>\<open>request\<close>
  itself or by a method that awaits it and then goes on, or the socket delivers a
  message. A run applies a list of these in order; the rejection of the promise of
  \<^verbatim>\<open>onMessage\<close> goes to nobody, as the socket does not look at it.
\<close>

datatype Input =
    Issue string json
  | IssueThen string json Continuation
  | Receive Message

fun step :: "Input \<Rightarrow> Client \<Rightarrow> Client" where
  "step (Issue act d) c = snd (request act d c)"
| "step (IssueThen act d k) c = snd (requestThen act d k c)"
| "step (Receive m) c = snd (onMessage m c)"

definition run :: "Client \<Rightarrow> Input list \<Rightarrow> Client" where
  "run c ins = foldl (\<lambda>c' i. step i c') c ins"

text \<open>An input that is a message carrying the number \<open>n\<close> in \<^verbatim>\<open>seq_reply\<close>.\<close>

definition answers :: "nat \<Rightarrow> Input \<Rightarrow> bool" where
  "answers n i = (case i of Receive m \<Rightarrow> seq_reply m = Some (int n) | _ \<Rightarrow> False)"

text \<open>Messages as the server sends them.\<close>

definition reply :: "int \<Rightarrow> string \<Rightarrow> MessageData option \<Rightarrow> json option \<Rightarrow> Message" where
  "reply n st d err =
     \<lparr>seq_reply = Some n, m_status = Some st, m_data = d, m_error = err, m_event = None\<rparr>"

definition noInfo :: ConnectionInfo where
  "noInfo =
     \<lparr>sock_id = None, server_build_commit = None, server_node_id = None,
      server_version = None, server_time = None, session = None\<rparr>"

definition plainData :: "json \<Rightarrow> MessageData" where
  "plainData j =
     \<lparr>body = j, info = noInfo, call = None, user_state = JUndefined,
      agent_status = JUndefined\<rparr>"

definition callMessage :: "CallEventData \<Rightarrow> Message" where
  "callMessage e =
     \<lparr>seq_reply = None, m_status = None,
      m_data = Some ((plainData (JObj []))\<lparr>call := Some e\<rparr>),
      m_error = None, m_event = Some WEBSOCKET_EVENT_CALL\<rparr>"

definition eventMessage :: "string \<Rightarrow> json \<Rightarrow> Message" where
  "eventMessage nm j =
     \<lparr>seq_reply = None, m_status = None, m_data = Some (plainData j),
      m_error = None, m_event = Some nm\<rparr>"

definition noPayload :: EventPayload where
  "noPayload =
     \<lparr>sip_id = None, parent_id = None, user_id = None, d_direction = None,
      d_destination = None, d_queue = None, d_from = None, d_to = None,
      d_payload = None, d_params = None, bridged_id = None, cause = None,
      sip_code = None, application = None, digit = None\<rparr>"

definition callEvent :: "string \<Rightarrow> string \<Rightarrow> int \<Rightarrow> EventPayload option \<Rightarrow> CallEventData" where
  "callEvent i ev ts d =
     \<lparr>e_id = i, app_id = ''app'', cc_app_id = ''cc'', timestamp = ts, event = ev, data = d\<rparr>"

text \<open>
  The events of the example of section 8 of the specification: call \<open>c1\<close> rings at
  1000, is answered at 1005 and hangs up at 1010.
\<close>

definition c1_ringing :: CallEventData where
  "c1_ringing =
     callEvent ''c1'' ''ringing'' 1000
       (Some (noPayload\<lparr>d_direction := Some ''inbound'', d_destination := Some ''100'',
                d_from := Some \<lparr>endpointType = [], number = Some ''555'',
                                endpointId = None, name = None\<rparr>\<rparr>))"

definition c1_active :: CallEventData where
  "c1_active = callEvent ''c1'' ''active'' 1005 None"

definition c1_bridge :: CallEventData where
  "c1_bridge = callEvent ''c1'' ''bridge'' 1007 (Some (noPayload\<lparr>bridged_id := Some ''c2''\<rparr>))"

definition c1_hangup :: CallEventData where
  "c1_hangup =
     callEvent ''c1'' ''hangup'' 1010
       (Some (noPayload\<lparr>cause := Some ''NORMAL_CLEARING'', sip_code := Some 200\<rparr>))"



text \<open>A client whose session is open: it has its phone, and the page is visible.\<close>

definition exampleConfig :: Config where
  "exampleConfig =
     \<lparr>endpoint = ''wss://example'', token = None, registerWebDevice = None, debug = None\<rparr>"

definition readyClient :: Client where
  "readyClient = (newClient exampleConfig False)\<lparr>phone := Some (newSipPhone (Some ''s1'') None)\<rparr>"

definition handleAll :: "CallEventData list \<Rightarrow> Client \<Rightarrow> Client" where
  "handleAll es c = foldl (\<lambda>c' e. snd (handleCallEvents e c')) c es"

definition setActives :: "CallEventData list \<Rightarrow> Call \<Rightarrow> Call" where
  "setActives es cl = foldl (\<lambda>c e. setActive e c) cl es"


section \<open>The request correlator\<close>

text \<open>
  The part of the client that requests and replies work on, and what holds of it in
  every state: the sequence counter is the number of frames sent; the frames carry
  1, 2, 3, ...; a pending entry has a number already assigned and a promise that is
  still pending; two entries never share a promise; every promise was made by a
  request.
\<close>

definition correlator :: "Client \<Rightarrow> nat \<times> (nat \<rightharpoonup> nat) \<times> (nat \<rightharpoonup> Settlement) \<times> nat \<times> Frame list" where
  "correlator c = (reqSeq c, queueRequest c, promises c, nextPromise c, socket c)"

definition correlatorInv :: "Client \<Rightarrow> bool" where
  "correlatorInv c \<longleftrightarrow>
     reqSeq c = length (socket c) \<and>
     map seq (socket c) = [1..<Suc (length (socket c))] \<and>
     (\<forall>s p. queueRequest c s = Some p \<longrightarrow> 0 < s \<and> s \<le> reqSeq c \<and> promises c p = Some Pending) \<and>
     (\<forall>s t p. queueRequest c s = Some p \<longrightarrow> queueRequest c t = Some p \<longrightarrow> s = t) \<and>
     (\<forall>p x. promises c p = Some x \<longrightarrow> p < nextPromise c)"

text \<open>How a reply settles the promise of its request.\<close>

definition outcome :: "Message \<Rightarrow> Settlement" where
  "outcome m =
     (if m_status m = Some STATUS_OK then Resolved (m_data m) else Rejected (m_error m))"

text \<open>Two requests, and the reply to the second.\<close>

definition repliedClient :: Client where
  "repliedClient =
     run (newClient exampleConfig False)
       [Issue ''call_invite'' JNull, Issue ''call_eavesdrop'' JNull,
        Receive (reply 2 STATUS_OK None None)]"

text \<open>What may follow a third request before its reply.\<close>

definition laterInputs :: "Input list" where
  "laterInputs = [Issue ''call_hold'' JNull, Receive (reply 1 STATUS_FAIL None None)]"

section \<open>The inbound router\<close>

text \<open>
  The actions that have a case in the \<^verbatim>\<open>switch\<close> of \<^verbatim>\<open>handleCallEvents\<close>, the
  event names that have one in the \<^verbatim>\<open>switch\<close> of \<^verbatim>\<open>onMessage\<close>, and a call
  event with the action \<^verbatim>\<open>update\<close> of \<^verbatim>\<open>CallActions\<close>, which has none.
\<close>

definition handledActions :: "string list" where
  "handledActions = [Ringing, Active, Bridge, Execute, DTMF, Voice, Silence, Hold, Hangup]"

definition routedEvents :: "string list" where
  "routedEvents =
     [WEBSOCKET_EVENT_HELLO, WEBSOCKET_EVENT_CALL, WEBSOCKET_EVENT_USER_STATE,
      WEBSOCKET_EVENT_SIP, WEBSOCKET_EVENT_AGENT_STATUS]"

definition named :: "Message \<Rightarrow> string list \<Rightarrow> bool" where
  "named m ns = (case m_event m of None \<Rightarrow> False | Some n \<Rightarrow> n \<in> set ns)"

definition updateEvent :: CallEventData where
  "updateEvent = callEvent ''c1'' ''update'' 1001 None"

section \<open>The call registry\<close>

text \<open>
  The registry and the objects it refers to, and what holds of them in every state: an
  entry under an id refers to an object, and that object has that id; every object
  was made before the next reference.
\<close>

definition registry :: "Client \<Rightarrow> (string \<rightharpoonup> nat) \<times> (nat \<rightharpoonup> Call) \<times> nat" where
  "registry c = (callStore c, heap c, nextRef c)"

definition registryInv :: "Client \<Rightarrow> bool" where
  "registryInv c \<longleftrightarrow>
     (\<forall>i r. callStore c i = Some r \<longrightarrow> (\<exists>cl. heap c r = Some cl \<and> callId cl = i)) \<and>
     (\<forall>r cl. heap c r = Some cl \<longrightarrow> r < nextRef c)"

text \<open>
  The other \<^verbatim>\<open>handleCallEvents\<close> of the repository (the second \<^verbatim>\<open>Client\<close>
  class among the sources, whose \<^verbatim>\<open>Call\<close> class is not among them). It looks the
  id up first and constructs a call only when there is no entry. The missing class is
  taken as parameters: the id of an event, the constructor, \<^verbatim>\<open>setState\<close>, the
  test \<^verbatim>\<open>state === CallState.Hangup\<close> and the id of a call. The handlers are called
  with the reference of the call.
\<close>

record 'c Registry0 =
  store0 :: "string \<rightharpoonup> nat"
  heap0 :: "nat \<rightharpoonup> 'c"
  next0 :: nat
  emitted0 :: "nat list"

definition handleCallEvents0 ::
  "('e \<Rightarrow> string) \<Rightarrow> ('e \<Rightarrow> 'c) \<Rightarrow> ('e \<Rightarrow> 'c \<Rightarrow> 'c) \<Rightarrow> ('c \<Rightarrow> bool) \<Rightarrow> ('c \<Rightarrow> string)
     \<Rightarrow> 'e \<Rightarrow> 'c Registry0 \<Rightarrow> error option \<times> 'c Registry0" where
  "handleCallEvents0 eventId newCall0 setState0 isHangup0 callId0 ev g =
     (let (r, g1) =
            (case store0 g (eventId ev) of
               Some r \<Rightarrow>
                 (r, g\<lparr>heap0 := (case heap0 g r of
                                     None \<Rightarrow> heap0 g
                                   | Some cl \<Rightarrow> (heap0 g)(r \<mapsto> setState0 ev cl))\<rparr>)
             | None \<Rightarrow>
                 (next0 g,
                  g\<lparr>heap0 := (heap0 g)(next0 g \<mapsto> newCall0 ev), next0 := Suc (next0 g),
                    store0 := (store0 g)(eventId ev \<mapsto> next0 g)\<rparr>))
      in case heap0 g1 r of
           None \<Rightarrow> (Some (TypeError ''undefined is not an object''), g1)
         | Some cl \<Rightarrow>
             (None,
              (if isHangup0 cl then g1\<lparr>store0 := (store0 g1)(callId0 cl := None)\<rparr> else g1)
                \<lparr>emitted0 := emitted0 g1 @ [r]\<rparr>))"

section \<open>Properties of the Call entity\<close>

lemmas CallActions_defs =
  Ringing_def Active_def Bridge_def Hold_def DTMF_def Voice_def Silence_def
  Execute_def Update_def Hangup_def PeerStream_def LocalStream_def

lemmas WEBSOCKET_defs =
  WEBSOCKET_EVENT_HELLO_def WEBSOCKET_EVENT_CALL_def WEBSOCKET_EVENT_USER_STATE_def
  WEBSOCKET_EVENT_AGENT_STATUS_def WEBSOCKET_EVENT_QUEUE_JOIN_MEMBER_def
  WEBSOCKET_EVENT_SIP_def

lemmas example_defs =
  c1_ringing_def c1_active_def c1_bridge_def c1_hangup_def callEvent_def noPayload_def
  readyClient_def exampleConfig_def newClient_def newSipPhone_def

lemmas handle_defs =
  handleAll_def handleCallEvents_def newCall_def blankCall_def setSip_def
  sipSessionByCallId_def sipSessionBySipId_def setInfo_def setState_def
  checkAutoAnswer_def autoAnswer_def answer_def finish_def emitCall_def emit_def
  listeners_def onCall_def callById_def noThrow_def setActive_def setBridged_def
  setHangup_def setHold_def

lemma setActive_answered: "answeredAt cl \<noteq> 0 \<Longrightarrow> answeredAt (setActive e cl) = answeredAt cl"
  by (simp add: setActive_def setState_def)

lemma setActives_answered:
  "answeredAt cl \<noteq> 0 \<Longrightarrow> answeredAt (setActives es cl) = answeredAt cl"
  by (induction es arbitrary: cl) (simp_all add: setActives_def setActive_answered)

lemma setActive_first: "answeredAt cl = 0 \<Longrightarrow> answeredAt (setActive e cl) = timestamp e"
  by (simp add: setActive_def setState_def Let_def)

text \<open>
  C4, as the code has it. \<^verbatim>\<open>setActive\<close> tests \<^verbatim>\<open>!this.answeredAt\<close>, so 0 is both
  "not answered" and a possible time stamp. For a call not yet answered and a first
  active event whose time stamp is not 0: \<^verbatim>\<open>answeredAt\<close> becomes that time stamp, and
  no sequence of later active events changes it; if the call is inbound,
  \<^verbatim>\<open>bridgedAt\<close> becomes the same time stamp, and a parent id, if there is one, becomes
  \<^verbatim>\<open>bridgedId\<close>.
\<close>

theorem setActive_answers_once:
  assumes "answeredAt cl = 0" and "timestamp e \<noteq> 0"
  shows "answeredAt (setActive e cl) = timestamp e
     \<and> answeredAt (setActives es (setActive e cl)) = timestamp e
     \<and> (direction cl = Some Inbound \<longrightarrow>
          bridgedAt (setActive e cl) = timestamp e
          \<and> (truthy (parentId cl) \<longrightarrow> bridgedId (setActive e cl) = parentId cl))"
proof -
  have a: "answeredAt (setActive e cl) = timestamp e"
    using assms(1) by (rule setActive_first)
  have b: "answeredAt (setActives es (setActive e cl)) = timestamp e"
    using a assms(2) setActives_answered [of "setActive e cl" es] by simp
  have c: "direction cl = Some Inbound \<longrightarrow>
          bridgedAt (setActive e cl) = timestamp e
          \<and> (truthy (parentId cl) \<longrightarrow> bridgedId (setActive e cl) = parentId cl)"
    using assms(1) by (simp add: setActive_def setState_def Let_def)
  from a b c show ?thesis by simp
qed

theorem setActive_answers_once_witness:
  "answeredAt ((blankCall c1_ringing)\<lparr>direction := Some Inbound, parentId := Some ''p1''\<rparr>) = 0
   \<and> timestamp c1_active \<noteq> 0
   \<and> answeredAt (setActives [callEvent ''c1'' ''active'' 1008 None]
        (setActive c1_active
          ((blankCall c1_ringing)\<lparr>direction := Some Inbound, parentId := Some ''p1''\<rparr>))) = 1005
   \<and> bridgedAt (setActive c1_active
          ((blankCall c1_ringing)\<lparr>direction := Some Inbound, parentId := Some ''p1''\<rparr>)) = 1005
   \<and> bridgedId (setActive c1_active
          ((blankCall c1_ringing)\<lparr>direction := Some Inbound, parentId := Some ''p1''\<rparr>)) = Some ''p1''"
  using setActive_answers_once
    [where cl = "(blankCall c1_ringing)\<lparr>direction := Some Inbound, parentId := Some ''p1''\<rparr>"
       and e = c1_active and es = "[callEvent ''c1'' ''active'' 1008 None]"]
  by (simp add: blankCall_def c1_active_def callEvent_def)

text \<open>
  C4 as stated fails when the first active event carries the time stamp 0: the call of
  the example, after an active event at 0, still has \<^verbatim>\<open>answeredAt = 0\<close>, and the next
  active event, at 5, changes it.
\<close>

theorem setActive_zero_timestamp_counterexample:
  "map_option answeredAt
     (heap (handleAll [c1_ringing, callEvent ''c1'' ''active'' 0 None] readyClient) 0) = Some 0
   \<and> map_option answeredAt
     (heap (handleAll [c1_ringing, callEvent ''c1'' ''active'' 0 None,
                       callEvent ''c1'' ''active'' 5 None] readyClient) 0) = Some 5"
  by (simp add: handle_defs example_defs CallActions_defs Inbound_def)

text \<open>
  C9, as the code has it. The duration does not depend on the answer time; it is the
  time from creation to now while \<^verbatim>\<open>hangupAt\<close> is 0 and from creation to hangup
  afterwards, in milliseconds, divided by 1000 and rounded to the nearest integer. A
  call created at 1000 and hung up at 1010 therefore has the duration 0.
\<close>

theorem duration_from_creation:
  "duration now (cl\<lparr>answeredAt := a\<rparr>) = duration now cl
   \<and> (hangupAt cl = 0 \<longrightarrow> duration now cl = roundSeconds (now - createdAt cl))
   \<and> (hangupAt cl \<noteq> 0 \<longrightarrow> duration now cl = roundSeconds (hangupAt cl - createdAt cl))
   \<and> (n - 500 < 1000 * roundSeconds n \<and> 1000 * roundSeconds n \<le> n + 500)
   \<and> (createdAt cl = 1000 \<and> hangupAt cl = 1010 \<longrightarrow> duration now cl = 0)"
  by (auto simp add: duration_def roundSeconds_def)

theorem duration_from_creation_witness:
  "hangupAt (blankCall c1_ringing) = 0
   \<and> duration 4600 (blankCall c1_ringing) = 4
   \<and> hangupAt ((blankCall c1_ringing)\<lparr>hangupAt := 1010\<rparr>) \<noteq> 0
   \<and> createdAt ((blankCall c1_ringing)\<lparr>hangupAt := 1010\<rparr>) = 1000
   \<and> duration 4600 ((blankCall c1_ringing)\<lparr>hangupAt := 1010\<rparr>) = 0"
  using duration_from_creation [where now = 4600 and cl = "blankCall c1_ringing"]
        duration_from_creation
          [where now = 4600 and cl = "(blankCall c1_ringing)\<lparr>hangupAt := 1010\<rparr>"]
  by (simp add: blankCall_def c1_ringing_def callEvent_def roundSeconds_def)

text \<open>
  C9 as stated fails on the example of section 8: after the three events the call has
  \<^verbatim>\<open>hangupAt = 1010\<close> and \<^verbatim>\<open>createdAt = 1000\<close>, and its duration is 0, not the 5 of
  the specification.
\<close>

theorem duration_example_counterexample:
  "map_option (duration 4600)
     (heap (handleAll [c1_ringing, c1_active, c1_hangup] readyClient) 0) = Some 0
   \<and> map_option (duration 4600)
     (heap (handleAll [c1_ringing, c1_active, c1_hangup] readyClient) 0) \<noteq> Some 5"
  by (simp add: handle_defs example_defs CallActions_defs Inbound_def duration_def
      roundSeconds_def)

text \<open>
  What \<^verbatim>\<open>setBridged\<close> does with an event that has its data, and what it never
  does: change the state.
\<close>

lemma setBridged_records:
  assumes "data e = Some b"
  shows "setBridged e cl =
    (None, cl\<lparr>bridgedAt := (if bridgedAt cl = 0 then timestamp e else bridgedAt cl),
               bridgedId := bridged_id b,
               toEndpoint := (case d_to b of None \<Rightarrow> toEndpoint cl | Some t \<Rightarrow> Some t)\<rparr>)"
  using assms by (simp add: setBridged_def Let_def split: option.splits)

lemma setBridged_allowHold: "allowHold cl \<Longrightarrow> allowHold (snd (setBridged e cl))"
  by (simp add: setBridged_def allowHold_def Let_def split: option.splits)

lemma setBridged_keeps_state: "state (snd (setBridged e cl)) = state cl"
  by (simp add: setBridged_def Let_def split: option.splits)

text \<open>
  C6 at the events of the example followed by a bridge event: the bridged id is
  recorded, and the state of the call is still \<^verbatim>\<open>active\<close>, not \<^verbatim>\<open>bridge\<close>, since
  \<^verbatim>\<open>setBridged\<close>, unlike \<^verbatim>\<open>setActive\<close>, \<^verbatim>\<open>setHold\<close> and \<^verbatim>\<open>setHangup\<close>, does
  not call \<^verbatim>\<open>setState\<close>.
\<close>

theorem bridge_event_keeps_state_active:
  "map_option state
     (heap (handleAll [c1_ringing, c1_active, c1_bridge] readyClient) 0) = Some ''active''
   \<and> map_option bridgedId
     (heap (handleAll [c1_ringing, c1_active, c1_bridge] readyClient) 0) = Some (Some ''c2'')
   \<and> map_option state
     (heap (handleAll [c1_ringing, c1_active, c1_bridge] readyClient) 0) \<noteq> Some Bridge"
  by (simp add: handle_defs example_defs CallActions_defs Inbound_def)

section \<open>Properties of call control\<close>

text \<open>
  C5, as the code has it. The guard of \<^verbatim>\<open>hold\<close> is the state alone: in state
  \<^verbatim>\<open>hold\<close> it throws and sends nothing, in every other state it sends one
  \<^verbatim>\<open>call_hold\<close> request. \<^verbatim>\<open>unHold\<close> throws and sends nothing in every state but
  \<^verbatim>\<open>hold\<close>, where it sends one \<^verbatim>\<open>call_unhold\<close> request. A call that may be held
  is not in state \<^verbatim>\<open>hold\<close>, and a call that may be taken off hold is.
\<close>

theorem hold_guard_is_state:
  "(state cl = Hold \<longrightarrow> hold cl c = (Inl (Error ''Call is hold''), c))
   \<and> (state cl \<noteq> Hold \<longrightarrow>
        hold cl c = (Inr (nextPromise c), snd (request ''call_hold'' (callRef cl) c))
        \<and> socket (snd (hold cl c)) =
            socket c @ [\<lparr>seq = Suc (reqSeq c), action = ''call_hold'',
                         frame_data = callRef cl\<rparr>])
   \<and> (state cl \<noteq> Hold \<longrightarrow> unHold cl c = (Inl (Error ''Call is active''), c))
   \<and> (state cl = Hold \<longrightarrow>
        unHold cl c = (Inr (nextPromise c), snd (request ''call_unhold'' (callRef cl) c))
        \<and> socket (snd (unHold cl c)) =
            socket c @ [\<lparr>seq = Suc (reqSeq c), action = ''call_unhold'',
                         frame_data = callRef cl\<rparr>])
   \<and> (allowHold cl \<longrightarrow> state cl \<noteq> Hold)
   \<and> (allowUnHold cl \<longrightarrow> state cl = Hold)"
  by (auto simp add: hold_def unHold_def request_def Let_def allowHold_def allowUnHold_def
      Hold_def)

theorem hold_guard_is_state_witness:
  "allowUnHold ((blankCall c1_ringing)\<lparr>state := Hold\<rparr>)
   \<and> hold ((blankCall c1_ringing)\<lparr>state := Hold\<rparr>) readyClient
       = (Inl (Error ''Call is hold''), readyClient)
   \<and> fst (unHold ((blankCall c1_ringing)\<lparr>state := Hold\<rparr>) readyClient)
       = Inr (nextPromise readyClient)
   \<and> allowHold ((blankCall c1_ringing)\<lparr>state := Active\<rparr>)
   \<and> unHold ((blankCall c1_ringing)\<lparr>state := Active\<rparr>) readyClient
       = (Inl (Error ''Call is active''), readyClient)
   \<and> fst (hold ((blankCall c1_ringing)\<lparr>state := Active\<rparr>) readyClient)
       = Inr (nextPromise readyClient)"
proof -
  have h: "state ((blankCall c1_ringing)\<lparr>state := Hold\<rparr>) = Hold"
    and a: "state ((blankCall c1_ringing)\<lparr>state := Active\<rparr>) \<noteq> Hold"
    by (simp_all add: CallActions_defs)
  have p: "allowUnHold ((blankCall c1_ringing)\<lparr>state := Hold\<rparr>)"
    and q: "allowHold ((blankCall c1_ringing)\<lparr>state := Active\<rparr>)"
    by (simp_all add: allowHold_def allowUnHold_def blankCall_def CallActions_defs)
  show ?thesis
    using h a p q
      hold_guard_is_state [where cl = "(blankCall c1_ringing)\<lparr>state := Hold\<rparr>"
                            and c = readyClient]
      hold_guard_is_state [where cl = "(blankCall c1_ringing)\<lparr>state := Active\<rparr>"
                            and c = readyClient]
    by simp
qed

text \<open>
  C5 as stated fails for a ringing call: it may not be held, and \<^verbatim>\<open>hold\<close> sends the
  request all the same.
\<close>

theorem hold_while_ringing_counterexample:
  "\<not> allowHold ((blankCall c1_ringing)\<lparr>state := Ringing\<rparr>)
   \<and> fst (hold ((blankCall c1_ringing)\<lparr>state := Ringing\<rparr>) readyClient) = Inr 0
   \<and> map action (socket (snd (hold ((blankCall c1_ringing)\<lparr>state := Ringing\<rparr>) readyClient)))
       = [''call_hold'']"
  by (simp add: hold_def request_def Let_def allowHold_def CallActions_defs blankCall_def
      example_defs)

section \<open>Properties of the registry and the dispatcher\<close>

lemma registryInv_cong: "registry c' = registry c \<Longrightarrow> registryInv c' = registryInv c"
  by (simp add: registry_def registryInv_def)

lemma registryInvI:
  assumes "\<And>i r. callStore c i = Some r \<Longrightarrow> \<exists>cl. heap c r = Some cl \<and> callId cl = i"
    and "\<And>r cl. heap c r = Some cl \<Longrightarrow> r < nextRef c"
  shows "registryInv c"
  unfolding registryInv_def using assms by blast

lemma registryInv_entry:
  "registryInv c \<Longrightarrow> callStore c i = Some r \<Longrightarrow> \<exists>cl. heap c r = Some cl \<and> callId cl = i"
  unfolding registryInv_def by blast

lemma registryInv_bound: "registryInv c \<Longrightarrow> heap c r = Some cl \<Longrightarrow> r < nextRef c"
  unfolding registryInv_def by blast

lemma registry_emit [simp]: "registry (emit k a c) = registry c"
  by (simp add: emit_def registry_def)

lemma registry_emitCall [simp]: "registry (emitCall e r c) = registry c"
  by (simp add: emitCall_def split: option.splits)

lemma registry_on [simp]: "registry (on k h c) = registry c"
  by (simp add: on_def registry_def)

lemma registry_answer [simp]: "registry (snd (answer req cl c)) = registry c"
  by (simp add: answer_def registry_def split: option.splits)

lemma registry_checkAutoAnswer [simp]: "registry (snd (checkAutoAnswer cl c)) = registry c"
  by (simp add: checkAutoAnswer_def split: option.splits)

lemma registry_finish [simp]: "registry (snd (finish e res)) = registry (snd (snd res))"
  by (cases res) (auto simp add: finish_def split: option.splits)

lemma registry_of_logOpened [simp]: "registry (snd (logOpened c)) = registry c"
  by (simp add: logOpened_def registry_def split: option.splits)

lemma registry_request [simp]: "registry (snd (request act d c)) = registry c"
  by (simp add: request_def Let_def registry_def)

lemma registry_requestThen [simp]: "registry (snd (requestThen act d k c)) = registry c"
  by (simp add: requestThen_def request_def Let_def registry_def)

lemma registry_connected [simp]: "registry (snd (snd (connected d c))) = registry c"
  by (cases d) (simp_all add: connected_def Let_def deviceConfig_def, simp_all add: registry_def)

lemma callId_newCall: "newCall c e = Inr cl \<Longrightarrow> callId cl = e_id e"
  by (auto simp add: newCall_def Let_def setInfo_def setState_def split: option.splits)

lemma callId_setActive [simp]: "callId (setActive e cl) = callId cl"
  by (simp add: setActive_def setState_def Let_def)

lemma callId_setBridged [simp]: "callId (snd (setBridged e cl)) = callId cl"
  by (simp add: setBridged_def Let_def split: option.splits)

lemma callId_setExecute [simp]: "callId (snd (setExecute d cl)) = callId cl"
  by (simp add: setExecute_def split: option.splits)

lemma callId_addDigit [simp]: "callId (snd (addDigit d cl)) = callId cl"
  by (simp add: addDigit_def split: option.splits)

lemma callId_setHangup [simp]: "callId (snd (setHangup e cl)) = callId cl"
  by (simp add: setHangup_def setState_def Let_def split: option.splits)

lemma callId_setHold [simp]: "callId (setHold e cl) = callId cl"
  by (simp add: setHold_def setState_def)

lemma registryInv_update:
  assumes inv: "registryInv c" and obj: "heap c r = Some cl" and same: "callId cl' = callId cl"
  shows "registryInv (c\<lparr>heap := (heap c)(r \<mapsto> cl')\<rparr>)" (is "registryInv ?c'")
proof (rule registryInvI)
  show "\<exists>x. heap ?c' q = Some x \<and> callId x = i" if "callStore ?c' i = Some q" for i q
  proof (cases "q = r")
    case True
    from that have "callStore c i = Some r" using True by simp
    from registryInv_entry [OF inv this] obj same show ?thesis using True by simp
  next
    case False
    from that have "callStore c i = Some q" by simp
    from registryInv_entry [OF inv this] False show ?thesis by simp
  qed
  show "q < nextRef ?c'" if "heap ?c' q = Some x" for q x
  proof (cases "q = r")
    case True
    then show ?thesis using registryInv_bound [OF inv obj] by simp
  next
    case False
    with that have "heap c q = Some x" by simp
    then show ?thesis using registryInv_bound [OF inv] by simp
  qed
qed

lemma registryInv_remove:
  assumes inv: "registryInv c"
  shows "registryInv (c\<lparr>callStore := (callStore c)(i := None)\<rparr>)" (is "registryInv ?c'")
proof (rule registryInvI)
  show "\<exists>x. heap ?c' q = Some x \<and> callId x = j" if "callStore ?c' j = Some q" for j q
  proof -
    from that have "callStore c j = Some q" by (simp split: if_splits)
    from registryInv_entry [OF inv this] show ?thesis by simp
  qed
  show "q < nextRef ?c'" if "heap ?c' q = Some x" for q x
    using that registryInv_bound [OF inv] by simp
qed

lemma registryInv_insert:
  assumes inv: "registryInv c"
  shows "registryInv (c\<lparr>heap := (heap c)(nextRef c \<mapsto> cl), nextRef := Suc (nextRef c),
                         callStore := (callStore c)(callId cl \<mapsto> nextRef c)\<rparr>)"
    (is "registryInv ?c'")
proof (rule registryInvI)
  have fresh: "heap c (nextRef c) = None"
    using registryInv_bound [OF inv, of "nextRef c"] by (cases "heap c (nextRef c)") auto
  show "\<exists>x. heap ?c' q = Some x \<and> callId x = j" if "callStore ?c' j = Some q" for j q
  proof (cases "j = callId cl")
    case True
    with that show ?thesis by simp
  next
    case False
    with that have st: "callStore c j = Some q" by simp
    from registryInv_entry [OF inv st] obtain x where x: "heap c q = Some x" "callId x = j"
      by blast
    then have "q \<noteq> nextRef c" using fresh by auto
    then show ?thesis using x by simp
  qed
  show "q < nextRef ?c'" if "heap ?c' q = Some x" for q x
  proof (cases "q = nextRef c")
    case True
    then show ?thesis by simp
  next
    case False
    with that have "heap c q = Some x" by simp
    then show ?thesis using registryInv_bound [OF inv, of q x] by simp
  qed
qed

lemma registryInv_onCall:
  assumes inv: "registryInv c" and same: "\<And>cl. callId (snd (f cl)) = callId cl"
  shows "registryInv (snd (snd (onCall i f c)))"
proof (cases "callById c i")
  case None
  then show ?thesis using inv by (simp add: onCall_def)
next
  case (Some r)
  show ?thesis
  proof (cases "heap c r")
    case None
    then show ?thesis using inv Some by (simp add: onCall_def)
  next
    case obj: (Some cl)
    have "registryInv (c\<lparr>heap := (heap c)(r \<mapsto> snd (f cl))\<rparr>)"
      using inv obj same by (rule registryInv_update)
    then show ?thesis using Some obj
      by (cases "f cl") (simp add: onCall_def)
  qed
qed


lemma registryInv_finish:
  "registryInv (snd (snd res)) \<Longrightarrow> registryInv (snd (finish e res))"
  using registryInv_cong [OF registry_finish] by blast

lemma registryInv_handleCallEvents:
  assumes inv: "registryInv c"
  shows "registryInv (snd (handleCallEvents e c))"
proof -
  have ring: "registryInv (snd (case newCall c e of
           Inl err \<Rightarrow> (Some err, c)
         | Inr cl \<Rightarrow>
             (let r = nextRef c;
                  c1 = c\<lparr>heap := (heap c)(r \<mapsto> cl), nextRef := Suc r,
                          callStore := (callStore c)(callId cl \<mapsto> r)\<rparr>
              in case checkAutoAnswer cl c1 of
                   (err, c2) \<Rightarrow> finish e (err, Some r, c2))))"
  proof (cases "newCall c e")
    case (Inl err)
    then show ?thesis using inv by simp
  next
    case (Inr cl)
    let ?c1 = "c\<lparr>heap := (heap c)(nextRef c \<mapsto> cl), nextRef := Suc (nextRef c),
                  callStore := (callStore c)(callId cl \<mapsto> nextRef c)\<rparr>"
    have i1: "registryInv ?c1" using inv by (rule registryInv_insert)
    obtain err c2 where k: "checkAutoAnswer cl ?c1 = (err, c2)"
      by (cases "checkAutoAnswer cl ?c1") auto
    have "registry c2 = registry ?c1"
      using registry_checkAutoAnswer [of cl ?c1] k by simp
    then have "registryInv c2" using i1 registryInv_cong by blast
    then have "registryInv (snd (finish e (err, Some (nextRef c), c2)))"
      by (simp add: registryInv_finish)
    then show ?thesis using Inr k by (simp add: Let_def)
  qed
  have hang: "registryInv (snd (case callById c (e_id e) of
           None \<Rightarrow> (None, c)
         | Some r \<Rightarrow>
             (case heap c r of
                None \<Rightarrow> (Some (TypeError ''undefined is not an object''), c)
              | Some cl \<Rightarrow>
                  (case setHangup e cl of
                     (Some err, cl') \<Rightarrow> (Some err, c\<lparr>heap := (heap c)(r \<mapsto> cl')\<rparr>)
                   | (None, cl') \<Rightarrow>
                       (None,
                        emitCall e (Some r)
                          (c\<lparr>heap := (heap c)(r \<mapsto> cl'),
                             callStore := (callStore c)(callId cl' := None)\<rparr>))))))"
  proof (cases "callById c (e_id e)")
    case None
    then show ?thesis using inv by simp
  next
    case (Some r)
    show ?thesis
    proof (cases "heap c r")
      case None
      then show ?thesis using inv Some by simp
    next
      case obj: (Some cl)
      obtain err cl' where k: "setHangup e cl = (err, cl')"
        by (cases "setHangup e cl") auto
      have same: "callId cl' = callId cl" using callId_setHangup [of e cl] k by simp
      have u: "registryInv (c\<lparr>heap := (heap c)(r \<mapsto> cl')\<rparr>)"
        using inv obj same by (rule registryInv_update)
      have "registryInv ((c\<lparr>heap := (heap c)(r \<mapsto> cl')\<rparr>)
              \<lparr>callStore := (callStore (c\<lparr>heap := (heap c)(r \<mapsto> cl')\<rparr>))(callId cl' := None)\<rparr>)"
        using u by (rule registryInv_remove)
      then have v: "registryInv (c\<lparr>heap := (heap c)(r \<mapsto> cl'),
                             callStore := (callStore c)(callId cl' := None)\<rparr>)"
        by simp
      have "registryInv (emitCall e (Some r) (c\<lparr>heap := (heap c)(r \<mapsto> cl'),
                             callStore := (callStore c)(callId cl' := None)\<rparr>))"
        using v registryInv_cong [OF registry_emitCall] by blast
      then show ?thesis using Some obj k u by (cases err) simp_all
    qed
  qed
  have oc: "\<And>f. (\<And>cl. callId (snd (f cl)) = callId cl) \<Longrightarrow>
      registryInv (snd (finish e (onCall (e_id e) f c)))"
    using registryInv_finish registryInv_onCall [OF inv] by blast
  show ?thesis
    unfolding handleCallEvents_def
    using ring hang inv
      oc [of "noThrow (setActive e)"] oc [of "setBridged e"] oc [of "setExecute (data e)"]
      oc [of "addDigit (data e)"] oc [of "noThrow setVoice"] oc [of "noThrow setSilence"]
      oc [of "noThrow (setHold e)"]
    by (simp add: noThrow_def setVoice_def setSilence_def)
qed

lemma registryInv_resume: "registryInv c \<Longrightarrow> registryInv (resume k v c)"
proof (cases k)
  case (SetMuted r m)
  assume inv: "registryInv c"
  show ?thesis
  proof (cases "heap c r")
    case None
    then show ?thesis using inv SetMuted by (simp add: resume_def)
  next
    case (Some cl)
    have "registryInv (c\<lparr>heap := (heap c)(r \<mapsto> cl\<lparr>muted := m\<rparr>)\<rparr>)"
      using inv Some by (rule registryInv_update) simp
    then show ?thesis using Some SetMuted by (simp add: resume_def)
  qed
next
  case RegisterDevice
  assume inv: "registryInv c"
  have "registry (resume RegisterDevice v c) = registry c"
    by (cases "phone c") (simp_all add: resume_def, simp_all add: registry_def)
  then show ?thesis using inv RegisterDevice registryInv_cong by blast
next
  case (OnSubscribe key h)
  assume inv: "registryInv c"
  have "registry (resume (OnSubscribe key h) v c) = registry c" by (simp add: resume_def)
  then show ?thesis using inv OnSubscribe registryInv_cong by blast
next
  case Return
  assume "registryInv c"
  then show ?thesis using Return by (simp add: resume_def)
qed

lemma registry_abandon [simp]: "registry (abandon k e c) = registry c"
  by (cases k) (simp_all add: abandon_def, simp add: registry_def)

lemma registryInv_resolve: "registryInv c \<Longrightarrow> registryInv (resolve p v c)"
proof -
  assume inv: "registryInv c"
  have a: "registryInv (c\<lparr>promises := (promises c)(p \<mapsto> Resolved v)\<rparr>)"
    using inv by (simp add: registryInv_def)
  have b: "\<And>k. registryInv (resume k v (c\<lparr>promises := (promises c)(p \<mapsto> Resolved v),
                 awaiting := (awaiting c)(p := None)\<rparr>))"
    by (rule registryInv_resume) (use inv in \<open>simp add: registryInv_def\<close>)
  show ?thesis
    using inv a b by (simp add: resolve_def Let_def split: option.splits Settlement.splits)
qed

lemma registry_reject [simp]: "registry (reject p e c) = registry c"
  by (simp add: reject_def Let_def split: option.splits Settlement.splits)
     (simp add: registry_def)

lemma registryInv_onMessage:
  assumes inv: "registryInv c"
  shows "registryInv (snd (onMessage m c))"
proof -
  let ?c = "c\<lparr>log := log c @ [ReceiveMessage m]\<rparr>"
  have l: "registryInv ?c" using inv by (simp add: registryInv_def)
  have q: "\<And>k. registryInv (?c\<lparr>queueRequest := (queueRequest ?c)(k := None)\<rparr>)"
    using inv by (simp add: registryInv_def)
  have rs: "\<And>k p v. registryInv (resolve p v (?c\<lparr>queueRequest := (queueRequest ?c)(k := None)\<rparr>))"
    using q by (rule registryInv_resolve)
  have rj: "\<And>k p e. registryInv (reject p e (?c\<lparr>queueRequest := (queueRequest ?c)(k := None)\<rparr>))"
    using q registryInv_cong [OF registry_reject] by blast
  have hello: "registryInv (snd (case connected (m_data m) ?c of
              (Some err, b, c1) \<Rightarrow> (Some err, c1)
            | (None, False, c1) \<Rightarrow> (None, c1)
            | (None, True, c1) \<Rightarrow> logOpened c1))"
  proof -
    obtain err b c1 where k: "connected (m_data m) ?c = (err, b, c1)"
      by (cases "connected (m_data m) ?c") auto
    have "registry c1 = registry ?c" using registry_connected [of "m_data m" ?c] k by simp
    then have c1: "registryInv c1" using l registryInv_cong by blast
    then have "registryInv (snd (logOpened c1))"
      using registryInv_cong [OF registry_of_logOpened] by blast
    then show ?thesis using k c1 by (cases err; cases b) simp_all
  qed
  have callev: "\<And>ev. registryInv (snd (handleCallEvents ev ?c))"
    using l by (rule registryInv_handleCallEvents)
  have em: "\<And>k a. registryInv (emit k a ?c)"
    using l registryInv_cong [OF registry_emit] by blast
  have nh: "registryInv (?c\<lparr>log := log ?c @ [EventNotHandler (m_event m)]\<rparr>)"
    using inv by (simp add: registryInv_def)
  show ?thesis
    unfolding onMessage_def Let_def
    using l rs rj hello callev em nh
    by (simp add: handleUserStateEvent_def split: option.splits)
qed

lemma registryInv_step: "registryInv c \<Longrightarrow> registryInv (step i c)"
proof (cases i)
  case (Issue act d)
  assume "registryInv c"
  then show ?thesis using Issue registryInv_cong [OF registry_request] by simp
next
  case (IssueThen act d k)
  assume "registryInv c"
  then show ?thesis using IssueThen registryInv_cong [OF registry_requestThen] by simp
next
  case (Receive m)
  assume "registryInv c"
  then show ?thesis using Receive by (simp add: registryInv_onMessage)
qed

lemma registryInv_newClient: "registryInv (newClient cfg hidden)"
  by (simp add: registryInv_def newClient_def)

lemma registryInv_run: "registryInv c \<Longrightarrow> registryInv (run c ins)"
  unfolding run_def
  by (induction ins arbitrary: c) (simp_all add: registryInv_step)

text \<open>
  What holds of C2 on the code: a ringing event whose call can be constructed makes
  one object and enters it under its id, and no other event ever changes the reference
  of an entry; a hangup event may remove the entry.
\<close>

lemma other_events_keep_references:
  assumes "event e \<noteq> Ringing"
  shows "callStore (snd (handleCallEvents e c)) i = callStore c i
       \<or> (event e = Hangup \<and> callStore (snd (handleCallEvents e c)) i = None)"
proof -
  have oc: "\<And>f. callStore (snd (finish e (onCall (e_id e) f c))) = callStore c"
  proof -
    fix f
    have "registry (snd (finish e (onCall (e_id e) f c))) = registry (snd (snd (onCall (e_id e) f c)))"
      by simp
    moreover have "callStore (snd (snd (onCall (e_id e) f c))) = callStore c"
      by (simp add: onCall_def split: option.splits prod.splits)
    ultimately show "callStore (snd (finish e (onCall (e_id e) f c))) = callStore c"
      by (simp add: registry_def)
  qed
  have em: "\<And>r x. callStore (emitCall e r x) = callStore x"
    using registry_emitCall by (simp add: registry_def)
  show ?thesis
    using assms
    by (auto simp add: handleCallEvents_def oc em split: option.splits prod.splits)
qed

lemma ringing_creates_one_call:
  assumes "event e = Ringing" and "newCall c e = Inr cl"
  shows "callStore (snd (handleCallEvents e c)) = (callStore c)(e_id e \<mapsto> nextRef c)
    \<and> heap (snd (handleCallEvents e c)) = (heap c)(nextRef c \<mapsto> cl)
    \<and> nextRef (snd (handleCallEvents e c)) = Suc (nextRef c)"
proof -
  let ?c1 = "c\<lparr>heap := (heap c)(nextRef c \<mapsto> cl), nextRef := Suc (nextRef c),
                callStore := (callStore c)(callId cl \<mapsto> nextRef c)\<rparr>"
  obtain err c2 where k: "checkAutoAnswer cl ?c1 = (err, c2)"
    by (cases "checkAutoAnswer cl ?c1") auto
  have "registry c2 = registry ?c1" using registry_checkAutoAnswer [of cl ?c1] k by simp
  moreover have "registry (snd (finish e (err, Some (nextRef c), c2))) = registry c2"
    by simp
  moreover have "handleCallEvents e c = finish e (err, Some (nextRef c), c2)"
    using assms k by (simp add: handleCallEvents_def Let_def)
  ultimately have "registry (snd (handleCallEvents e c)) = registry ?c1" by simp
  then show ?thesis using callId_newCall [OF assms(2)] by (simp add: registry_def)
qed

text \<open>
  The other \<^verbatim>\<open>handleCallEvents\<close> never changes the reference of an entry either,
  whatever the event, a ringing event included.
\<close>

lemma handleCallEvents0_keeps_reference:
  assumes "store0 g i = Some r"
  shows "store0 (snd (handleCallEvents0 eventId newCall0 setState0 isHangup0 callId0 ev g)) i
           \<in> {Some r, None}"
  using assms
  by (auto simp add: handleCallEvents0_def Let_def split: option.splits prod.splits if_splits)

text \<open>
  C2 at two ringing events for the same id: the first call is the object at reference
  0; the second event makes a second object, at reference 1, and the registry then
  holds that one. Whoever kept the first reference holds an object that the registry
  no longer knows: the active event that follows changes the object at 1 and leaves
  the one at 0 unanswered.
\<close>

theorem ringing_replaces_registered_call:
  "callStore (handleAll [c1_ringing] readyClient) ''c1'' = Some 0
   \<and> callStore (handleAll [c1_ringing, c1_ringing] readyClient) ''c1'' = Some 1
   \<and> map_option answeredAt
       (heap (handleAll [c1_ringing, c1_ringing, c1_active] readyClient) 0) = Some 0
   \<and> map_option answeredAt
       (heap (handleAll [c1_ringing, c1_ringing, c1_active] readyClient) 1) = Some 1005"
  by (simp add: handle_defs example_defs CallActions_defs Inbound_def)

text \<open>
  C7 at one handler: handler 7 subscribes to call events and the server agrees; it
  unsubscribes and the server agrees; it is still a listener of the channel, and the
  ringing event that follows is delivered to it.
\<close>

theorem unSubscribe_keeps_listener:
  "listeners WEBSOCKET_EVENT_CALL
     (snd (onMessage (reply 2 STATUS_OK None None)
        (snd (unSubscribe ''call'' 7 JUndefined
           (snd (onMessage (reply 1 STATUS_OK None None)
              (snd (subscribeCall 7 JUndefined readyClient)))))))) = [7]
  \<and> invoked (snd (onMessage (callMessage c1_ringing)
     (snd (onMessage (reply 2 STATUS_OK None None)
        (snd (unSubscribe ''call'' 7 JUndefined
           (snd (onMessage (reply 1 STATUS_OK None None)
              (snd (subscribeCall 7 JUndefined readyClient))))))))))
     = [(7, ''call'', CallArgs ''ringing'' 0)]"
  by (simp add: onMessage_def isReply_def replyKey_def reply_def unSubscribe_def
      subscribeCall_def requestThen_def request_def resolve_def resume_def on_def
      STATUS_OK_def Let_def callMessage_def plainData_def noInfo_def WEBSOCKET_defs
      handle_defs example_defs CallActions_defs)

text \<open>
  A hangup event without data: \<^verbatim>\<open>setHangup\<close> has assigned \<^verbatim>\<open>hangupAt\<close> when
  reading the cause throws, and the entry stays in the registry. Such an event is not
  a \<^verbatim>\<open>CallHangup\<close>, which has a cause.
\<close>

lemma hangup_without_data_throws:
  assumes "callStore c (e_id e) = Some r" and "heap c r = Some cl"
    and "event e = Hangup" and "data e = None"
  shows "handleCallEvents e c =
    (Some (TypeError ''cause of undefined''),
     c\<lparr>heap := (heap c)(r \<mapsto> cl\<lparr>hangupAt := timestamp e\<rparr>)\<rparr>)"
  using assms
  by (simp add: handleCallEvents_def CallActions_defs callById_def setHangup_def Let_def)








section \<open>Properties of the request correlator\<close>

lemma correlatorInv_cong:
  "correlator c' = correlator c \<Longrightarrow> correlatorInv c' = correlatorInv c"
  by (simp add: correlator_def correlatorInv_def)

lemma correlator_emit [simp]: "correlator (emit k a c) = correlator c"
  by (simp add: emit_def correlator_def)

lemma correlator_emitCall [simp]: "correlator (emitCall e r c) = correlator c"
  by (simp add: emitCall_def split: option.splits)

lemma correlator_on [simp]: "correlator (on k h c) = correlator c"
  by (simp add: on_def correlator_def)

lemma correlator_answer [simp]: "correlator (snd (answer req cl c)) = correlator c"
  by (simp add: answer_def correlator_def split: option.splits)

lemma correlator_checkAutoAnswer [simp]: "correlator (snd (checkAutoAnswer cl c)) = correlator c"
  by (simp add: checkAutoAnswer_def split: option.splits)

lemma correlator_onCall [simp]: "correlator (snd (snd (onCall i f c))) = correlator c"
  by (simp add: onCall_def correlator_def split: option.splits prod.splits)

lemma correlator_finish [simp]:
  "correlator (snd (finish e res)) = correlator (snd (snd res))"
  by (cases res) (auto simp add: finish_def split: option.splits)

lemma correlator_handleCallEvents [simp]:
  "correlator (snd (handleCallEvents e c)) = correlator c"
proof -
  have ring: "\<And>cl. correlator (snd (case checkAutoAnswer cl
        (c\<lparr>heap := (heap c)(nextRef c \<mapsto> cl), nextRef := Suc (nextRef c),
            callStore := (callStore c)(callId cl \<mapsto> nextRef c)\<rparr>) of
          (err, c2) \<Rightarrow> finish e (err, Some (nextRef c), c2))) = correlator c"
  proof -
    fix cl
    let ?c1 = "c\<lparr>heap := (heap c)(nextRef c \<mapsto> cl), nextRef := Suc (nextRef c),
            callStore := (callStore c)(callId cl \<mapsto> nextRef c)\<rparr>"
    have "correlator (snd (checkAutoAnswer cl ?c1)) = correlator ?c1" by simp
    moreover have "correlator ?c1 = correlator c" by (simp add: correlator_def)
    ultimately show "correlator (snd (case checkAutoAnswer cl ?c1 of
          (err, c2) \<Rightarrow> finish e (err, Some (nextRef c), c2))) = correlator c"
      by (cases "checkAutoAnswer cl ?c1") simp
  qed
  have hang: "correlator (snd (case callById c (e_id e) of
           None \<Rightarrow> (None, c)
         | Some r \<Rightarrow>
             (case heap c r of
                None \<Rightarrow> (Some (TypeError ''undefined is not an object''), c)
              | Some cl \<Rightarrow>
                  (case setHangup e cl of
                     (Some err, cl') \<Rightarrow> (Some err, c\<lparr>heap := (heap c)(r \<mapsto> cl')\<rparr>)
                   | (None, cl') \<Rightarrow>
                       (None,
                        emitCall e (Some r)
                          (c\<lparr>heap := (heap c)(r \<mapsto> cl'),
                             callStore := (callStore c)(callId cl' := None)\<rparr>)))))) = correlator c"
    by (auto simp add: correlator_def emitCall_def emit_def split: option.splits prod.splits)
  show ?thesis
    unfolding handleCallEvents_def Let_def
    using ring hang by (simp split: sum.splits)
qed


lemma correlator_logOpened [simp]: "correlator (snd (logOpened c)) = correlator c"
  by (simp add: logOpened_def correlator_def split: option.splits)

lemma correlator_resume [simp]: "correlator (resume k v c) = correlator c"
proof (cases k)
  case RegisterDevice
  then show ?thesis
    by (cases "phone c") (simp_all add: resume_def, simp_all add: correlator_def)
qed (simp_all add: resume_def, simp_all add: correlator_def split: option.splits)

lemma correlator_abandon [simp]: "correlator (abandon k e c) = correlator c"
  by (cases k) (simp_all add: abandon_def, simp add: correlator_def)

lemma correlatorInv_newClient: "correlatorInv (newClient cfg hidden)"
  by (simp add: correlatorInv_def newClient_def)

lemma correlatorInv_request:
  assumes "correlatorInv c"
  shows "correlatorInv (snd (request act d c))"
proof -
  from assms have fresh: "promises c (nextPromise c) = None"
    by (cases "promises c (nextPromise c)") (auto simp add: correlatorInv_def)
  from assms have bound: "\<And>s p. queueRequest c s = Some p \<Longrightarrow> s \<le> reqSeq c \<and> p < nextPromise c"
    by (auto simp add: correlatorInv_def)
  show ?thesis
    unfolding correlatorInv_def request_def Let_def
    using assms bound
    apply (simp add: correlatorInv_def)
    apply (intro conjI allI impI)
        apply (auto split: if_splits dest: bound)
    done
qed

lemma correlatorInv_requestThen:
  assumes "correlatorInv c"
  shows "correlatorInv (snd (requestThen act d k c))"
proof (cases "request act d c")
  case (Pair p c1)
  have "correlatorInv c1"
    using correlatorInv_request [OF assms, of act d] Pair by simp
  moreover have "correlator (c1\<lparr>awaiting := (awaiting c1)(p \<mapsto> k)\<rparr>) = correlator c1"
    by (simp add: correlator_def)
  ultimately have "correlatorInv (c1\<lparr>awaiting := (awaiting c1)(p \<mapsto> k)\<rparr>)"
    using correlatorInv_cong by blast
  then show ?thesis
    by (simp add: requestThen_def Pair)
qed



lemma correlatorInv_connected:
  assumes "correlatorInv c"
  shows "correlatorInv (snd (snd (connected d c)))"
proof (cases d)
  case None
  have "correlator (c\<lparr>connectionInfo := None\<rparr>) = correlator c"
    by (simp add: correlator_def)
  then have "correlatorInv (c\<lparr>connectionInfo := None\<rparr>)"
    using assms correlatorInv_cong by blast
  then show ?thesis using None
    by (simp add: connected_def)
next
  case (Some md)
  define c2 where "c2 = c\<lparr>connectionInfo := Some (info md),
              phone := Some (newSipPhone (sock_id (info md)) (debug (config c)))\<rparr>"
  have "correlator c2 = correlator c" by (simp add: correlator_def c2_def)
  then have inv2: "correlatorInv c2" using assms correlatorInv_cong by blast
  have inv3: "correlatorInv (snd (deviceConfig RegisterDevice c2))"
    unfolding deviceConfig_def by (rule correlatorInv_requestThen [OF inv2])
  have "connected d c =
      (if useWebPhone c2 then (None, False, snd (deviceConfig RegisterDevice c2))
       else (None, True, c2))"
    by (simp add: connected_def Some Let_def c2_def)
  then show ?thesis
    using inv2 inv3 by simp
qed

lemma correlatorInvI:
  assumes "reqSeq c = length (socket c)"
    and "map seq (socket c) = [1..<Suc (length (socket c))]"
    and "\<And>s p. queueRequest c s = Some p \<Longrightarrow>
           0 < s \<and> s \<le> reqSeq c \<and> promises c p = Some Pending"
    and "\<And>s t p. queueRequest c s = Some p \<Longrightarrow> queueRequest c t = Some p \<Longrightarrow> s = t"
    and "\<And>p x. promises c p = Some x \<Longrightarrow> p < nextPromise c"
  shows "correlatorInv c"
  unfolding correlatorInv_def using assms by blast

lemma correlatorInv_settle:
  assumes inv: "correlatorInv c" and pend: "queueRequest c s = Some p"
  shows "correlatorInv (c\<lparr>queueRequest := (queueRequest c)(s := None),
                          promises := (promises c)(p \<mapsto> x)\<rparr>)"
    (is "correlatorInv ?c'")
proof (rule correlatorInvI)
  from inv have a: "reqSeq c = length (socket c)"
    and b: "map seq (socket c) = [1..<Suc (length (socket c))]"
    and q: "\<And>s p. queueRequest c s = Some p \<Longrightarrow> 0 < s \<and> s \<le> reqSeq c \<and> promises c p = Some Pending"
    and i: "\<And>s t p. queueRequest c s = Some p \<Longrightarrow> queueRequest c t = Some p \<Longrightarrow> s = t"
    and f: "\<And>p x. promises c p = Some x \<Longrightarrow> p < nextPromise c"
    unfolding correlatorInv_def by blast+
  have other: "\<And>t r. t \<noteq> s \<Longrightarrow> queueRequest c t = Some r \<Longrightarrow> r \<noteq> p"
    using i pend by blast
  have pb: "p < nextPromise c" using q [OF pend] f by blast
  show "reqSeq ?c' = length (socket ?c')" using a by simp
  show "map seq (socket ?c') = [1..<Suc (length (socket ?c'))]" using b by simp
  show "0 < t \<and> t \<le> reqSeq ?c' \<and> promises ?c' r = Some Pending"
    if "queueRequest ?c' t = Some r" for t r
  proof -
    from that have ts: "t \<noteq> s" and tr: "queueRequest c t = Some r"
      by (simp_all split: if_splits)
    from other [OF ts tr] q [OF tr] show ?thesis by simp
  qed
  show "t = u" if "queueRequest ?c' t = Some r" and "queueRequest ?c' u = Some r" for t u r
  proof -
    from that have "queueRequest c t = Some r" and "queueRequest c u = Some r"
      by (simp_all split: if_splits)
    then show ?thesis by (rule i)
  qed
  show "r < nextPromise ?c'" if "promises ?c' r = Some y" for r y
  proof (cases "r = p")
    case True
    then show ?thesis using pb by simp
  next
    case False
    with that have "promises c r = Some y" by simp
    then show ?thesis using f by simp
  qed
qed


lemma correlator_resolve:
  "promises c p = Some Pending \<Longrightarrow>
   correlator (resolve p v c) = correlator (c\<lparr>promises := (promises c)(p \<mapsto> Resolved v)\<rparr>)"
  by (simp add: resolve_def Let_def split: option.splits) (simp add: correlator_def)

lemma correlator_reject:
  "promises c p = Some Pending \<Longrightarrow>
   correlator (reject p e c) = correlator (c\<lparr>promises := (promises c)(p \<mapsto> Rejected e)\<rparr>)"
  by (simp add: reject_def Let_def split: option.splits) (simp add: correlator_def)

lemma onMessage_reply_pending:
  assumes "isReply m" and "queueRequest c (replyKey m) = Some p"
    and "promises c p = Some Pending"
  shows "fst (onMessage m c) = None"
    and "correlator (snd (onMessage m c)) =
         correlator (c\<lparr>queueRequest := (queueRequest c)(replyKey m := None),
                        promises := (promises c)(p \<mapsto> outcome m)\<rparr>)"
  using assms
  by (simp_all add: onMessage_def Let_def outcome_def correlator_resolve correlator_reject)
     (simp_all add: correlator_def)

lemma onMessage_reply_unknown:
  assumes "isReply m" and "queueRequest c (replyKey m) = None"
  shows "onMessage m c = (None, c\<lparr>log := log c @ [ReceiveMessage m]\<rparr>)"
  using assms by (simp add: onMessage_def Let_def)

lemma onMessage_hello:
  assumes "\<not> isReply m" and "m_event m = Some WEBSOCKET_EVENT_HELLO"
  shows "correlator (snd (onMessage m c)) =
         correlator (snd (snd (connected (m_data m) (c\<lparr>log := log c @ [ReceiveMessage m]\<rparr>))))"
proof -
  let ?c = "c\<lparr>log := log c @ [ReceiveMessage m]\<rparr>"
  obtain err b c1 where k: "connected (m_data m) ?c = (err, b, c1)"
    by (cases "connected (m_data m) ?c") auto
  show ?thesis
    using assms k
    by (cases err; cases b) (simp_all add: onMessage_def Let_def)
qed

lemma onMessage_event:
  assumes "\<not> isReply m" and "m_event m \<noteq> Some WEBSOCKET_EVENT_HELLO"
  shows "correlator (snd (onMessage m c)) = correlator c"
proof -
  have l: "correlator (c\<lparr>log := log c @ [ReceiveMessage m]\<rparr>) = correlator c"
    by (simp add: correlator_def)
  have l2: "correlator (c\<lparr>log := log c @ [ReceiveMessage m, EventNotHandler (m_event m)]\<rparr>)
      = correlator c"
    by (simp add: correlator_def)
  show ?thesis
    using assms l l2
    by (simp add: onMessage_def Let_def handleUserStateEvent_def split: option.splits)
qed


lemma correlatorInv_pending:
  "correlatorInv c \<Longrightarrow> queueRequest c s = Some p \<Longrightarrow> promises c p = Some Pending"
  unfolding correlatorInv_def by blast

lemma correlatorInv_bound:
  "correlatorInv c \<Longrightarrow> promises c p = Some x \<Longrightarrow> p < nextPromise c"
  unfolding correlatorInv_def by blast

lemma correlatorInv_onMessage:
  assumes inv: "correlatorInv c"
  shows "correlatorInv (snd (onMessage m c))"
proof (cases "isReply m")
  case True
  show ?thesis
  proof (cases "queueRequest c (replyKey m)")
    case None
    have "correlator (c\<lparr>log := log c @ [ReceiveMessage m]\<rparr>) = correlator c"
      by (simp add: correlator_def)
    then have "correlatorInv (c\<lparr>log := log c @ [ReceiveMessage m]\<rparr>)"
      using inv correlatorInv_cong by blast
    then show ?thesis using onMessage_reply_unknown [OF True None] by simp
  next
    case (Some p)
    have pend: "promises c p = Some Pending"
      using inv Some by (rule correlatorInv_pending)
    show ?thesis
      using onMessage_reply_pending(2) [OF True Some pend]
        correlatorInv_settle [OF inv Some, of "outcome m"] correlatorInv_cong
      by blast
  qed
next
  case False
  show ?thesis
  proof (cases "m_event m = Some WEBSOCKET_EVENT_HELLO")
    case True
    have "correlator (c\<lparr>log := log c @ [ReceiveMessage m]\<rparr>) = correlator c"
      by (simp add: correlator_def)
    then have "correlatorInv (c\<lparr>log := log c @ [ReceiveMessage m]\<rparr>)"
      using inv correlatorInv_cong by blast
    then have "correlatorInv
        (snd (snd (connected (m_data m) (c\<lparr>log := log c @ [ReceiveMessage m]\<rparr>))))"
      by (rule correlatorInv_connected)
    then show ?thesis
      using onMessage_hello [OF False True] correlatorInv_cong by blast
  next
    case notHello: False
    show ?thesis
      using onMessage_event [OF False notHello] inv correlatorInv_cong by blast
  qed
qed

lemma correlatorInv_step: "correlatorInv c \<Longrightarrow> correlatorInv (step i c)"
  by (cases i)
     (simp_all add: correlatorInv_request correlatorInv_requestThen correlatorInv_onMessage)

lemma correlatorInv_run: "correlatorInv c \<Longrightarrow> correlatorInv (run c ins)"
  unfolding run_def
  by (induction ins arbitrary: c) (simp_all add: correlatorInv_step)

lemma promises_request:
  "p < nextPromise c \<Longrightarrow> promises (snd (request act d c)) p = promises c p"
  by (simp add: request_def Let_def)

lemma promises_requestThen:
  "p < nextPromise c \<Longrightarrow> promises (snd (requestThen act d k c)) p = promises c p"
  by (simp add: requestThen_def request_def Let_def)

lemma promises_connected:
  "p < nextPromise c \<Longrightarrow> promises (snd (snd (connected d c))) p = promises c p"
  by (cases d)
     (simp_all add: connected_def Let_def deviceConfig_def requestThen_def request_def
        split: prod.splits)

lemma promises_correlator:
  "correlator c' = correlator c \<Longrightarrow> promises c' = promises c"
  by (simp add: correlator_def)

lemma promises_step:
  assumes inv: "correlatorInv c" and px: "promises c p = Some x"
  shows "promises (step i c) p = Some x
     \<or> (x = Pending \<and> (\<exists>m. i = Receive m \<and> isReply m \<and> queueRequest c (replyKey m) = Some p))"
proof (cases i)
  case (Issue act d)
  have "p < nextPromise c" using inv px by (rule correlatorInv_bound)
  then show ?thesis using Issue px by (simp add: promises_request)
next
  case (IssueThen act d k)
  have "p < nextPromise c" using inv px by (rule correlatorInv_bound)
  then show ?thesis using IssueThen px by (simp add: promises_requestThen)
next
  case (Receive m)
  show ?thesis
  proof (cases "isReply m")
    case True
    show ?thesis
    proof (cases "queueRequest c (replyKey m)")
      case None
      then show ?thesis
        using Receive px onMessage_reply_unknown [OF True None] by simp
    next
      case (Some q)
      have pend: "promises c q = Some Pending"
        using inv Some by (rule correlatorInv_pending)
      have eq: "promises (snd (onMessage m c)) = (promises c)(q \<mapsto> outcome m)"
        using promises_correlator [OF onMessage_reply_pending(2) [OF True Some pend]]
        by simp
      show ?thesis
      proof (cases "q = p")
        case True
        then show ?thesis using Receive Some \<open>isReply m\<close> pend px by simp
      next
        case False
        then show ?thesis using Receive eq px by simp
      qed
    qed
  next
    case False
    show ?thesis
    proof (cases "m_event m = Some WEBSOCKET_EVENT_HELLO")
      case True
      have b: "p < nextPromise (c\<lparr>log := log c @ [ReceiveMessage m]\<rparr>)"
        using correlatorInv_bound [OF inv px] by simp
      have "promises (snd (onMessage m c)) p =
            promises (c\<lparr>log := log c @ [ReceiveMessage m]\<rparr>) p"
        using promises_correlator [OF onMessage_hello [OF False True, of c]]
          promises_connected [OF b, of "m_data m"]
        by simp
      then show ?thesis using Receive px by simp
    next
      case notHello: False
      show ?thesis
        using promises_correlator [OF onMessage_event [OF False notHello, of c]] Receive px
        by simp
    qed
  qed
qed


lemma isReply_iff: "isReply m \<longleftrightarrow> (\<exists>k. seq_reply m = Some k \<and> 0 < k)"
  by (cases "seq_reply m") (simp_all add: isReply_def)

lemma replyKey_seq: "seq_reply m = Some k \<Longrightarrow> replyKey m = nat k"
  by (simp add: replyKey_def)

lemma correlatorInv_key:
  "correlatorInv c \<Longrightarrow> queueRequest c s = Some p \<Longrightarrow> 0 < s \<and> s \<le> reqSeq c"
  unfolding correlatorInv_def by blast

lemma queueRequest_request:
  "s \<le> reqSeq c \<Longrightarrow> queueRequest (snd (request act d c)) s = queueRequest c s"
  by (simp add: request_def Let_def)

lemma queueRequest_requestThen:
  "s \<le> reqSeq c \<Longrightarrow> queueRequest (snd (requestThen act d k c)) s = queueRequest c s"
  by (simp add: requestThen_def request_def Let_def)

lemma queueRequest_connected:
  "s \<le> reqSeq c \<Longrightarrow> queueRequest (snd (snd (connected d c))) s = queueRequest c s"
  by (cases d)
     (simp_all add: connected_def Let_def deviceConfig_def requestThen_def request_def
        split: prod.splits)

lemma queueRequest_correlator:
  "correlator c' = correlator c \<Longrightarrow> queueRequest c' = queueRequest c"
  by (simp add: correlator_def)

lemma pending_step:
  assumes inv: "correlatorInv c" and q: "queueRequest c s = Some p" and na: "\<not> answers s i"
  shows "queueRequest (step i c) s = Some p"
proof (cases i)
  case (Issue act d)
  have "s \<le> reqSeq c" using correlatorInv_key [OF inv q] by simp
  then show ?thesis using Issue q by (simp add: queueRequest_request)
next
  case (IssueThen act d k)
  have "s \<le> reqSeq c" using correlatorInv_key [OF inv q] by simp
  then show ?thesis using IssueThen q by (simp add: queueRequest_requestThen)
next
  case (Receive m)
  have pos: "0 < s" using correlatorInv_key [OF inv q] by simp
  show ?thesis
  proof (cases "isReply m")
    case True
    then obtain k where k: "seq_reply m = Some k" "0 < k" using isReply_iff by blast
    have "k \<noteq> int s" using na Receive k by (simp add: answers_def)
    then have ne: "replyKey m \<noteq> s" using k pos by (simp add: replyKey_def)
    show ?thesis
    proof (cases "queueRequest c (replyKey m)")
      case None
      then show ?thesis using Receive q onMessage_reply_unknown [OF True None] by simp
    next
      case (Some r)
      have pend: "promises c r = Some Pending" using inv Some by (rule correlatorInv_pending)
      have "queueRequest (snd (onMessage m c)) = (queueRequest c)(replyKey m := None)"
        using queueRequest_correlator [OF onMessage_reply_pending(2) [OF True Some pend]]
        by simp
      then show ?thesis using Receive q ne by simp
    qed
  next
    case False
    show ?thesis
    proof (cases "m_event m = Some WEBSOCKET_EVENT_HELLO")
      case True
      have b: "s \<le> reqSeq (c\<lparr>log := log c @ [ReceiveMessage m]\<rparr>)"
        using correlatorInv_key [OF inv q] by simp
      have "queueRequest (snd (onMessage m c)) s =
            queueRequest (c\<lparr>log := log c @ [ReceiveMessage m]\<rparr>) s"
        using queueRequest_correlator [OF onMessage_hello [OF False True, of c]]
          queueRequest_connected [OF b, of "m_data m"]
        by simp
      then show ?thesis using Receive q by simp
    next
      case notHello: False
      show ?thesis
        using queueRequest_correlator [OF onMessage_event [OF False notHello, of c]] Receive q
        by simp
    qed
  qed
qed

lemma pending_run:
  assumes "correlatorInv c" and "queueRequest c s = Some p" and "\<forall>i \<in> set ins. \<not> answers s i"
  shows "queueRequest (run c ins) s = Some p"
  using assms unfolding run_def
proof (induction ins arbitrary: c)
  case Nil
  then show ?case by simp
next
  case (Cons i ins)
  have "correlatorInv (step i c)" using Cons.prems(1) by (rule correlatorInv_step)
  moreover have "queueRequest (step i c) s = Some p"
    using Cons.prems by (simp add: pending_step)
  ultimately show ?case using Cons.IH Cons.prems(3) by simp
qed

lemma settle_at:
  assumes inv: "correlatorInv c" and k: "seq_reply m = Some k" "0 < k"
    and q: "queueRequest c (nat k) = Some p"
  shows "promises c p = Some Pending
     \<and> fst (onMessage m c) = None
     \<and> queueRequest (snd (onMessage m c)) = (queueRequest c)(nat k := None)
     \<and> promises (snd (onMessage m c)) =
         (promises c)(p \<mapsto> (if m_status m = Some STATUS_OK then Resolved (m_data m)
                              else Rejected (m_error m)))"
proof -
  have r: "isReply m" using k isReply_iff by blast
  have key: "replyKey m = nat k" using k by (simp add: replyKey_def)
  have q': "queueRequest c (replyKey m) = Some p" using q key by simp
  have pend: "promises c p = Some Pending" using inv q by (rule correlatorInv_pending)
  have "correlator (snd (onMessage m c)) =
         correlator (c\<lparr>queueRequest := (queueRequest c)(replyKey m := None),
                        promises := (promises c)(p \<mapsto> outcome m)\<rparr>)"
    by (rule onMessage_reply_pending(2) [OF r q' pend])
  then have "queueRequest (snd (onMessage m c)) = (queueRequest c)(nat k := None)"
    and "promises (snd (onMessage m c)) = (promises c)(p \<mapsto> outcome m)"
    using key by (simp_all add: correlator_def)
  then show ?thesis
    using pend onMessage_reply_pending(1) [OF r q' pend] by (simp add: outcome_def)
qed

lemma not_reply_unrouted:
  assumes "seq_reply m = None \<or> (\<exists>k. seq_reply m = Some k \<and> k \<le> 0)"
    and "\<not> named m routedEvents"
  shows "onMessage m c =
    (None, c\<lparr>log := log c @ [ReceiveMessage m, EventNotHandler (m_event m)]\<rparr>)"
proof -
  have "\<not> isReply m" using assms(1) by (auto simp add: isReply_def)
  then show ?thesis using assms(2)
    by (cases "m_event m") (simp_all add: onMessage_def Let_def named_def routedEvents_def)
qed

lemmas run_defs =
  run_def request_def onMessage_def isReply_def replyKey_def reply_def resolve_def reject_def
  newClient_def exampleConfig_def STATUS_OK_def STATUS_FAIL_def Let_def

text \<open>
  C1. In every state that a client reaches from its construction by requests issued
  (by \<^verbatim>\<open>request\<close> or by a method that awaits it) and messages received, in any
  order:
  \<^item> the frames sent so far carry the sequence numbers 1, 2, 3, ... in the order of
    their requests, and the next request gets the next number \<open>n\<close>, a pending entry
    under it and a new, pending promise;
  \<^item> whatever follows that request, as long as no message carries \<open>n\<close> in
    \<^verbatim>\<open>seq_reply\<close>, the entry under \<open>n\<close> still refers to that promise and the
    promise is still pending; the message that then carries \<open>n\<close> removes the entry
    and settles that promise and no other: fulfilled with the data when the status is
    \<^verbatim>\<open>OK\<close>, rejected with the error otherwise; nothing is thrown;
  \<^item> no single step takes a pending entry away, unless it is a message carrying the
    number of the entry;
  \<^item> a message with a positive number \<open>k\<close> in \<^verbatim>\<open>seq_reply\<close> is looked up under
    \<open>k\<close>: with an entry there, it settles the promise of that entry as above;
    with none, it only writes the debug line of every message, and nothing is thrown;
  \<^item> a message without \<^verbatim>\<open>seq_reply\<close>, or with one that is not positive, is not
    a reply: with an event name that has no case it is logged as such;
  \<^item> a settled promise stays as it is whatever happens next, and a pending promise
    is settled by nothing but a message carrying the number of its pending entry.
  Sequence numbers are JavaScript numbers, exact up to \<open>2^53\<close>; they are natural
  numbers here.
\<close>

theorem replies_settle_requests_once:
  assumes "c = run (newClient cfg hidden) ins"
  shows "map seq (socket c) = [1..<Suc (length (socket c))]
    \<and> (\<forall>act d.
          fst (request act d c) = nextPromise c
          \<and> socket (snd (request act d c)) =
              socket c @ [\<lparr>seq = Suc (length (socket c)), action = act, frame_data = d\<rparr>]
          \<and> queueRequest (snd (request act d c)) (Suc (length (socket c))) = Some (nextPromise c)
          \<and> promises c (nextPromise c) = None
          \<and> promises (snd (request act d c)) (nextPromise c) = Some Pending)
    \<and> (\<forall>act d ins' m.
          (\<forall>i \<in> set ins'. \<not> answers (Suc (length (socket c))) i)
          \<and> seq_reply m = Some (int (Suc (length (socket c)))) \<longrightarrow>
          queueRequest (run (snd (request act d c)) ins') (Suc (length (socket c)))
            = Some (nextPromise c)
          \<and> promises (run (snd (request act d c)) ins') (nextPromise c) = Some Pending
          \<and> fst (onMessage m (run (snd (request act d c)) ins')) = None
          \<and> queueRequest (snd (onMessage m (run (snd (request act d c)) ins'))) =
              (queueRequest (run (snd (request act d c)) ins'))(Suc (length (socket c)) := None)
          \<and> promises (snd (onMessage m (run (snd (request act d c)) ins'))) =
              (promises (run (snd (request act d c)) ins'))
                (nextPromise c \<mapsto> (if m_status m = Some STATUS_OK then Resolved (m_data m)
                                     else Rejected (m_error m))))
    \<and> (\<forall>i s p. queueRequest c s = Some p \<and> \<not> answers s i \<longrightarrow>
          queueRequest (step i c) s = Some p)
    \<and> (\<forall>m k p. seq_reply m = Some k \<and> 0 < k \<and> queueRequest c (nat k) = Some p \<longrightarrow>
          promises c p = Some Pending
          \<and> fst (onMessage m c) = None
          \<and> queueRequest (snd (onMessage m c)) = (queueRequest c)(nat k := None)
          \<and> promises (snd (onMessage m c)) =
              (promises c)(p \<mapsto> (if m_status m = Some STATUS_OK then Resolved (m_data m)
                                   else Rejected (m_error m))))
    \<and> (\<forall>m k. seq_reply m = Some k \<and> 0 < k \<and> queueRequest c (nat k) = None \<longrightarrow>
          onMessage m c = (None, c\<lparr>log := log c @ [ReceiveMessage m]\<rparr>))
    \<and> (\<forall>m. (seq_reply m = None \<or> (\<exists>k. seq_reply m = Some k \<and> k \<le> 0))
             \<and> \<not> named m routedEvents \<longrightarrow>
          onMessage m c =
            (None, c\<lparr>log := log c @ [ReceiveMessage m, EventNotHandler (m_event m)]\<rparr>))
    \<and> (\<forall>i p x. promises c p = Some x \<and> x \<noteq> Pending \<longrightarrow> promises (step i c) p = Some x)
    \<and> (\<forall>i p. promises c p = Some Pending \<and> promises (step i c) p \<noteq> Some Pending \<longrightarrow>
          (\<exists>m k. i = Receive m \<and> seq_reply m = Some k \<and> 0 < k
                 \<and> queueRequest c (nat k) = Some p))"
proof -
  have inv: "correlatorInv c"
    unfolding assms by (rule correlatorInv_run [OF correlatorInv_newClient])
  have len: "reqSeq c = length (socket c)" using inv by (simp add: correlatorInv_def)
  have ids: "map seq (socket c) = [1..<Suc (length (socket c))]"
    using inv by (simp add: correlatorInv_def)
  have fresh: "promises c (nextPromise c) = None"
    using correlatorInv_bound [OF inv, of "nextPromise c"]
    by (cases "promises c (nextPromise c)") auto
  have entry: "\<And>act d.
      queueRequest (snd (request act d c)) (Suc (length (socket c))) = Some (nextPromise c)"
    using len by (simp add: request_def Let_def)
  have issue: "\<forall>act d.
          fst (request act d c) = nextPromise c
          \<and> socket (snd (request act d c)) =
              socket c @ [\<lparr>seq = Suc (length (socket c)), action = act, frame_data = d\<rparr>]
          \<and> queueRequest (snd (request act d c)) (Suc (length (socket c))) = Some (nextPromise c)
          \<and> promises c (nextPromise c) = None
          \<and> promises (snd (request act d c)) (nextPromise c) = Some Pending"
    using fresh len by (simp add: request_def Let_def)
  have correlate: "\<forall>act d ins' m.
          (\<forall>i \<in> set ins'. \<not> answers (Suc (length (socket c))) i)
          \<and> seq_reply m = Some (int (Suc (length (socket c)))) \<longrightarrow>
          queueRequest (run (snd (request act d c)) ins') (Suc (length (socket c)))
            = Some (nextPromise c)
          \<and> promises (run (snd (request act d c)) ins') (nextPromise c) = Some Pending
          \<and> fst (onMessage m (run (snd (request act d c)) ins')) = None
          \<and> queueRequest (snd (onMessage m (run (snd (request act d c)) ins'))) =
              (queueRequest (run (snd (request act d c)) ins'))(Suc (length (socket c)) := None)
          \<and> promises (snd (onMessage m (run (snd (request act d c)) ins'))) =
              (promises (run (snd (request act d c)) ins'))
                (nextPromise c \<mapsto> (if m_status m = Some STATUS_OK then Resolved (m_data m)
                                     else Rejected (m_error m)))"
  proof (intro allI impI)
    fix act d ins' and m :: Message
    let ?n = "Suc (length (socket c))"
    let ?c2 = "run (snd (request act d c)) ins'"
    assume h: "(\<forall>i \<in> set ins'. \<not> answers ?n i) \<and> seq_reply m = Some (int ?n)"
    have inv1: "correlatorInv (snd (request act d c))"
      using inv by (rule correlatorInv_request)
    have inv2: "correlatorInv ?c2" using inv1 by (rule correlatorInv_run)
    have q2: "queueRequest ?c2 ?n = Some (nextPromise c)"
      using inv1 entry h by (simp add: pending_run)
    have q2': "queueRequest ?c2 (nat (int ?n)) = Some (nextPromise c)"
      using q2 by (simp only: nat_int)
    have k: "seq_reply m = Some (int ?n)" using h by blast
    have pos: "0 < int ?n" by (simp only: of_nat_0_less_iff zero_less_Suc)
    note S = settle_at [OF inv2 k pos q2', unfolded nat_int]
    from S q2
    show "queueRequest ?c2 ?n = Some (nextPromise c)
          \<and> promises ?c2 (nextPromise c) = Some Pending
          \<and> fst (onMessage m ?c2) = None
          \<and> queueRequest (snd (onMessage m ?c2)) = (queueRequest ?c2)(?n := None)
          \<and> promises (snd (onMessage m ?c2)) =
              (promises ?c2)
                (nextPromise c \<mapsto> (if m_status m = Some STATUS_OK then Resolved (m_data m)
                                     else Rejected (m_error m)))"
      by blast
  qed
  have keep: "\<forall>i s p. queueRequest c s = Some p \<and> \<not> answers s i \<longrightarrow>
          queueRequest (step i c) s = Some p"
    using pending_step [OF inv] by blast
  have settle: "\<forall>m k p. seq_reply m = Some k \<and> 0 < k \<and> queueRequest c (nat k) = Some p \<longrightarrow>
          promises c p = Some Pending
          \<and> fst (onMessage m c) = None
          \<and> queueRequest (snd (onMessage m c)) = (queueRequest c)(nat k := None)
          \<and> promises (snd (onMessage m c)) =
              (promises c)(p \<mapsto> (if m_status m = Some STATUS_OK then Resolved (m_data m)
                                   else Rejected (m_error m)))"
    using settle_at [OF inv] by blast
  have unknown: "\<forall>m k. seq_reply m = Some k \<and> 0 < k \<and> queueRequest c (nat k) = None \<longrightarrow>
          onMessage m c = (None, c\<lparr>log := log c @ [ReceiveMessage m]\<rparr>)"
  proof (intro allI impI)
    fix m :: Message and k
    assume h: "seq_reply m = Some k \<and> 0 < k \<and> queueRequest c (nat k) = None"
    then have "isReply m" using isReply_iff by blast
    moreover have "queueRequest c (replyKey m) = None" using h by (simp add: replyKey_def)
    ultimately show "onMessage m c = (None, c\<lparr>log := log c @ [ReceiveMessage m]\<rparr>)"
      by (rule onMessage_reply_unknown)
  qed
  have noreply: "\<forall>m. (seq_reply m = None \<or> (\<exists>k. seq_reply m = Some k \<and> k \<le> 0))
             \<and> \<not> named m routedEvents \<longrightarrow>
          onMessage m c =
            (None, c\<lparr>log := log c @ [ReceiveMessage m, EventNotHandler (m_event m)]\<rparr>)"
    using not_reply_unrouted by blast
  have once: "\<forall>i p x. promises c p = Some x \<and> x \<noteq> Pending \<longrightarrow> promises (step i c) p = Some x"
    using promises_step [OF inv] by blast
  have only: "\<forall>i p. promises c p = Some Pending \<and> promises (step i c) p \<noteq> Some Pending \<longrightarrow>
          (\<exists>m k. i = Receive m \<and> seq_reply m = Some k \<and> 0 < k
                 \<and> queueRequest c (nat k) = Some p)"
  proof (intro allI impI)
    fix i p
    assume h: "promises c p = Some Pending \<and> promises (step i c) p \<noteq> Some Pending"
    with promises_step [OF inv, of p Pending i] obtain m
      where m: "i = Receive m" "isReply m" "queueRequest c (replyKey m) = Some p" by blast
    from m(2) obtain k where k: "seq_reply m = Some k" "0 < k" using isReply_iff by blast
    then have "replyKey m = nat k" by (simp add: replyKey_def)
    with m k show "\<exists>m k. i = Receive m \<and> seq_reply m = Some k \<and> 0 < k
                 \<and> queueRequest c (nat k) = Some p"
      by auto
  qed
  show ?thesis
    apply (intro conjI)
            apply (rule ids)
           apply (rule issue)
          apply (rule correlate)
         apply (rule keep)
        apply (rule settle)
       apply (rule unknown)
      apply (rule noreply)
     apply (rule once)
    apply (rule only)
    done
qed

theorem replies_settle_requests_once_witness:
  "map seq (socket repliedClient) = [1, 2]
   \<and> filter (answers 3) laterInputs = []
   \<and> promises (snd (onMessage (reply 3 STATUS_OK None None)
         (run (snd (request ''call_mute'' JNull repliedClient)) laterInputs)))
       = (promises (run (snd (request ''call_mute'' JNull repliedClient)) laterInputs))
           (nextPromise repliedClient \<mapsto> Resolved None)
   \<and> queueRequest repliedClient 1 = Some 0
   \<and> queueRequest (step (Receive (reply 2 STATUS_FAIL None None)) repliedClient) 1 = Some 0
   \<and> promises (snd (onMessage (reply 1 STATUS_FAIL None (Some (JStr ''busy''))) repliedClient))
       = (promises repliedClient)(0 \<mapsto> Rejected (Some (JStr ''busy'')))
   \<and> queueRequest repliedClient 2 = None
   \<and> onMessage (reply 2 STATUS_FAIL None None) repliedClient
       = (None, repliedClient\<lparr>log := log repliedClient
                                @ [ReceiveMessage (reply 2 STATUS_FAIL None None)]\<rparr>)
   \<and> onMessage (eventMessage ''ping'' JNull) repliedClient
       = (None, repliedClient\<lparr>log := log repliedClient
                                @ [ReceiveMessage (eventMessage ''ping'' JNull),
                                   EventNotHandler (Some ''ping'')]\<rparr>)
   \<and> promises repliedClient 1 = Some (Resolved None)
   \<and> promises (step (Receive (reply 2 STATUS_FAIL None None)) repliedClient) 1
       = Some (Resolved None)"
proof -
  note T = replies_settle_requests_once [OF repliedClient_def]
  have n: "length (socket repliedClient) = 2"
    by (simp add: repliedClient_def run_defs)
  have q1: "queueRequest repliedClient 1 = Some 0"
    and q2: "queueRequest repliedClient 2 = None"
    and p1: "promises repliedClient 1 = Some (Resolved None)"
    by (simp_all add: repliedClient_def run_defs)
  have later: "\<forall>i \<in> set laterInputs. \<not> answers 3 i"
    by (simp add: laterInputs_def answers_def reply_def)
  have r3: "seq_reply (reply 3 STATUS_OK None None) = Some 3"
    and s3: "m_status (reply 3 STATUS_OK None None) = Some STATUS_OK"
    and d3: "m_data (reply 3 STATUS_OK None None) = None"
    and r1: "seq_reply (reply 1 STATUS_FAIL None (Some (JStr ''busy''))) = Some 1"
    and s1: "m_status (reply 1 STATUS_FAIL None (Some (JStr ''busy''))) \<noteq> Some STATUS_OK"
    and e1: "m_error (reply 1 STATUS_FAIL None (Some (JStr ''busy''))) = Some (JStr ''busy'')"
    and r2: "seq_reply (reply 2 STATUS_FAIL None None) = Some 2"
    and a2: "\<not> answers 1 (Receive (reply 2 STATUS_FAIL None None))"
    and ev: "seq_reply (eventMessage ''ping'' JNull) = None"
    and en: "\<not> named (eventMessage ''ping'' JNull) routedEvents"
    and ee: "m_event (eventMessage ''ping'' JNull) = Some ''ping''"
    by (simp_all add: reply_def STATUS_OK_def STATUS_FAIL_def answers_def eventMessage_def
        named_def routedEvents_def WEBSOCKET_defs)
  from T n have w1: "map seq (socket repliedClient) = [1, 2]"
    by (simp add: upt_rec)
  from T have "(\<forall>i \<in> set laterInputs. \<not> answers (Suc (length (socket repliedClient))) i)
       \<and> seq_reply (reply 3 STATUS_OK None None)
           = Some (int (Suc (length (socket repliedClient)))) \<longrightarrow>
     promises (snd (onMessage (reply 3 STATUS_OK None None)
         (run (snd (request ''call_mute'' JNull repliedClient)) laterInputs)))
       = (promises (run (snd (request ''call_mute'' JNull repliedClient)) laterInputs))
           (nextPromise repliedClient \<mapsto>
              (if m_status (reply 3 STATUS_OK None None) = Some STATUS_OK
               then Resolved (m_data (reply 3 STATUS_OK None None))
               else Rejected (m_error (reply 3 STATUS_OK None None))))"
    by blast
  with later r3 s3 d3 n have w2:
    "promises (snd (onMessage (reply 3 STATUS_OK None None)
         (run (snd (request ''call_mute'' JNull repliedClient)) laterInputs)))
       = (promises (run (snd (request ''call_mute'' JNull repliedClient)) laterInputs))
           (nextPromise repliedClient \<mapsto> Resolved None)"
    by simp
  from T have "queueRequest repliedClient 1 = Some 0
       \<and> \<not> answers 1 (Receive (reply 2 STATUS_FAIL None None)) \<longrightarrow>
     queueRequest (step (Receive (reply 2 STATUS_FAIL None None)) repliedClient) 1 = Some 0"
    by blast
  with q1 a2 have w3:
    "queueRequest (step (Receive (reply 2 STATUS_FAIL None None)) repliedClient) 1 = Some 0"
    by simp
  from T have "seq_reply (reply 1 STATUS_FAIL None (Some (JStr ''busy''))) = Some 1
       \<and> (0::int) < 1 \<and> queueRequest repliedClient (nat 1) = Some 0 \<longrightarrow>
     promises (snd (onMessage (reply 1 STATUS_FAIL None (Some (JStr ''busy''))) repliedClient))
       = (promises repliedClient)(0 \<mapsto>
            (if m_status (reply 1 STATUS_FAIL None (Some (JStr ''busy''))) = Some STATUS_OK
             then Resolved (m_data (reply 1 STATUS_FAIL None (Some (JStr ''busy''))))
             else Rejected (m_error (reply 1 STATUS_FAIL None (Some (JStr ''busy''))))))"
    by blast
  with r1 q1 s1 e1 have w4:
    "promises (snd (onMessage (reply 1 STATUS_FAIL None (Some (JStr ''busy''))) repliedClient))
       = (promises repliedClient)(0 \<mapsto> Rejected (Some (JStr ''busy'')))"
    by simp
  from T have "seq_reply (reply 2 STATUS_FAIL None None) = Some 2
       \<and> (0::int) < 2 \<and> queueRequest repliedClient (nat 2) = None \<longrightarrow>
     onMessage (reply 2 STATUS_FAIL None None) repliedClient
       = (None, repliedClient\<lparr>log := log repliedClient
                                @ [ReceiveMessage (reply 2 STATUS_FAIL None None)]\<rparr>)"
    by blast
  with r2 q2 have w5: "onMessage (reply 2 STATUS_FAIL None None) repliedClient
       = (None, repliedClient\<lparr>log := log repliedClient
                                @ [ReceiveMessage (reply 2 STATUS_FAIL None None)]\<rparr>)"
    by simp
  from T have "(seq_reply (eventMessage ''ping'' JNull) = None
         \<or> (\<exists>k. seq_reply (eventMessage ''ping'' JNull) = Some k \<and> k \<le> 0))
       \<and> \<not> named (eventMessage ''ping'' JNull) routedEvents \<longrightarrow>
     onMessage (eventMessage ''ping'' JNull) repliedClient
       = (None, repliedClient\<lparr>log := log repliedClient
                                @ [ReceiveMessage (eventMessage ''ping'' JNull),
                                   EventNotHandler (m_event (eventMessage ''ping'' JNull))]\<rparr>)"
    by blast
  with ev en ee have w6: "onMessage (eventMessage ''ping'' JNull) repliedClient
       = (None, repliedClient\<lparr>log := log repliedClient
                                @ [ReceiveMessage (eventMessage ''ping'' JNull),
                                   EventNotHandler (Some ''ping'')]\<rparr>)"
    by simp
  from T have "promises repliedClient 1 = Some (Resolved None) \<and> Resolved None \<noteq> Pending \<longrightarrow>
     promises (step (Receive (reply 2 STATUS_FAIL None None)) repliedClient) 1
       = Some (Resolved None)"
    by blast
  with p1 have w7: "promises (step (Receive (reply 2 STATUS_FAIL None None)) repliedClient) 1
       = Some (Resolved None)"
    by simp
  have none: "filter (answers 3) laterInputs = []"
    using later by (simp add: filter_empty_conv)
  from w1 none w2 q1 w3 w4 q2 w5 w6 p1 w7 show ?thesis by blast
qed

section \<open>Properties of the inbound router\<close>

lemma dispatch_logOpened:
  "invoked (snd (logOpened c)) = invoked c \<and> callStore (snd (logOpened c)) = callStore c"
  by (simp add: logOpened_def split: option.splits)

lemma dispatch_resume:
  "invoked (resume k v c) = invoked c \<and> callStore (resume k v c) = callStore c"
  by (cases k) (simp_all add: resume_def on_def dispatch_logOpened split: option.splits)

lemma dispatch_abandon:
  "invoked (abandon k e c) = invoked c \<and> callStore (abandon k e c) = callStore c"
  by (cases k) (simp_all add: abandon_def dispatch_logOpened)

lemma dispatch_resolve:
  "invoked (resolve p v c) = invoked c \<and> callStore (resolve p v c) = callStore c"
  by (simp add: resolve_def Let_def dispatch_resume split: option.splits Settlement.splits)

lemma dispatch_reject:
  "invoked (reject p v c) = invoked c \<and> callStore (reject p v c) = callStore c"
  by (simp add: reject_def Let_def dispatch_abandon split: option.splits Settlement.splits)

lemma onMessage_reply:
  assumes "isReply m"
  shows "fst (onMessage m c) = None \<and> invoked (snd (onMessage m c)) = invoked c
     \<and> callStore (snd (onMessage m c)) = callStore c"
  using assms
  by (simp add: onMessage_def Let_def dispatch_resolve dispatch_reject split: option.splits)

lemma onMessage_unknown_event:
  assumes "\<not> isReply m" and "\<not> named m routedEvents"
  shows "onMessage m c =
    (None, c\<lparr>log := log c @ [ReceiveMessage m, EventNotHandler (m_event m)]\<rparr>)"
  using assms
  by (cases "m_event m") (simp_all add: onMessage_def Let_def named_def routedEvents_def)

lemma handleCallEvents_unhandled:
  assumes "event ev \<notin> set handledActions"
  shows "handleCallEvents ev c = (Some (Error ''Unhandled action''), c)"
  using assms by (simp add: handleCallEvents_def handledActions_def)

lemma onMessage_unhandled_action:
  assumes "\<not> isReply m" and "m_event m = Some WEBSOCKET_EVENT_CALL"
    and "m_data m = Some md" and "call md = Some ev" and "event ev \<notin> set handledActions"
  shows "onMessage m c =
    (Some (Error ''Unhandled action''), c\<lparr>log := log c @ [ReceiveMessage m]\<rparr>)"
  using assms
  by (simp add: onMessage_def Let_def handleCallEvents_unhandled WEBSOCKET_defs)

text \<open>
  C8, as the code has it. A message is a reply exactly when \<^verbatim>\<open>seq_reply\<close> is
  positive. A reply is handled as a reply only: nothing is thrown, no handler of an
  event is called and the registry is left alone. Any other message is handled as an
  event only: unless it is the greeting, which may send the request for the device's
  configuration, the pending requests and the promises are left alone. An event whose
  name has no case is logged as an error and nothing is thrown. A call event whose
  action has no case is not logged: \<^verbatim>\<open>handleCallEvents\<close> throws
  \<^verbatim>\<open>Error('Unhandled action')\<close>, and the promise of \<^verbatim>\<open>onMessage\<close> is rejected
  with it.
\<close>

theorem onMessage_routes_or_throws:
  "(isReply m \<longrightarrow>
      fst (onMessage m c) = None \<and> invoked (snd (onMessage m c)) = invoked c
      \<and> callStore (snd (onMessage m c)) = callStore c)
   \<and> (\<not> isReply m \<and> m_event m \<noteq> Some WEBSOCKET_EVENT_HELLO \<longrightarrow>
      queueRequest (snd (onMessage m c)) = queueRequest c
      \<and> promises (snd (onMessage m c)) = promises c)
   \<and> (\<not> isReply m \<and> \<not> named m routedEvents \<longrightarrow>
      onMessage m c =
        (None, c\<lparr>log := log c @ [ReceiveMessage m, EventNotHandler (m_event m)]\<rparr>))
   \<and> (\<not> isReply m \<and> m_event m = Some WEBSOCKET_EVENT_CALL \<and> m_data m = Some md
        \<and> call md = Some ev \<and> event ev \<notin> set handledActions \<longrightarrow>
      onMessage m c =
        (Some (Error ''Unhandled action''), c\<lparr>log := log c @ [ReceiveMessage m]\<rparr>))"
proof -
  have ev: "\<not> isReply m \<and> m_event m \<noteq> Some WEBSOCKET_EVENT_HELLO \<longrightarrow>
      queueRequest (snd (onMessage m c)) = queueRequest c
      \<and> promises (snd (onMessage m c)) = promises c"
  proof
    assume "\<not> isReply m \<and> m_event m \<noteq> Some WEBSOCKET_EVENT_HELLO"
    then have "correlator (snd (onMessage m c)) = correlator c"
      using onMessage_event by blast
    then show "queueRequest (snd (onMessage m c)) = queueRequest c
      \<and> promises (snd (onMessage m c)) = promises c"
      by (simp add: correlator_def)
  qed
  show ?thesis
    using ev onMessage_reply [of m c] onMessage_unknown_event [of m c]
      onMessage_unhandled_action [of m md ev c]
    by blast
qed

theorem onMessage_routes_or_throws_witness:
  "fst (onMessage (reply 5 STATUS_OK None None) readyClient) = None
   \<and> onMessage (eventMessage WEBSOCKET_EVENT_QUEUE_JOIN_MEMBER JNull) readyClient =
       (None, readyClient\<lparr>log := log readyClient @
          [ReceiveMessage (eventMessage WEBSOCKET_EVENT_QUEUE_JOIN_MEMBER JNull),
           EventNotHandler (Some WEBSOCKET_EVENT_QUEUE_JOIN_MEMBER)]\<rparr>)
   \<and> queueRequest (snd (onMessage (eventMessage WEBSOCKET_EVENT_QUEUE_JOIN_MEMBER JNull)
        readyClient)) = queueRequest readyClient
   \<and> onMessage (callMessage updateEvent) readyClient =
       (Some (Error ''Unhandled action''),
        readyClient\<lparr>log := log readyClient @ [ReceiveMessage (callMessage updateEvent)]\<rparr>)"
proof -
  have r: "isReply (reply 5 STATUS_OK None None)"
    by (simp add: isReply_def reply_def)
  have q: "\<not> isReply (eventMessage WEBSOCKET_EVENT_QUEUE_JOIN_MEMBER JNull)"
    and qn: "\<not> named (eventMessage WEBSOCKET_EVENT_QUEUE_JOIN_MEMBER JNull) routedEvents"
    and qh: "m_event (eventMessage WEBSOCKET_EVENT_QUEUE_JOIN_MEMBER JNull)
        \<noteq> Some WEBSOCKET_EVENT_HELLO"
    and qe: "m_event (eventMessage WEBSOCKET_EVENT_QUEUE_JOIN_MEMBER JNull)
        = Some WEBSOCKET_EVENT_QUEUE_JOIN_MEMBER"
    by (simp_all add: isReply_def eventMessage_def named_def routedEvents_def WEBSOCKET_defs)
  have u: "\<not> isReply (callMessage updateEvent)"
    and ue: "m_event (callMessage updateEvent) = Some WEBSOCKET_EVENT_CALL"
    and ud: "m_data (callMessage updateEvent) =
        Some ((plainData (JObj []))\<lparr>call := Some updateEvent\<rparr>)"
    and uc: "call ((plainData (JObj []))\<lparr>call := Some updateEvent\<rparr>) = Some updateEvent"
    and ua: "event updateEvent \<notin> set handledActions"
    by (simp_all add: isReply_def callMessage_def updateEvent_def callEvent_def
        handledActions_def CallActions_defs)
  show ?thesis
    using r q qn qh qe u ue ud uc ua
      onMessage_routes_or_throws [where m = "reply 5 STATUS_OK None None" and c = readyClient]
      onMessage_routes_or_throws [where m = "eventMessage WEBSOCKET_EVENT_QUEUE_JOIN_MEMBER JNull" and c = readyClient]
      onMessage_routes_or_throws [where m = "callMessage updateEvent" and c = readyClient
            and md = "(plainData (JObj []))\<lparr>call := Some updateEvent\<rparr>" and ev = updateEvent]
    by simp
qed

text \<open>
  C8 as stated fails for a call event with the action \<^verbatim>\<open>update\<close>: the routing
  ends with the error, and the log has no error entry for it.
\<close>

theorem unhandled_action_throws_counterexample:
  "fst (onMessage (callMessage updateEvent) readyClient) = Some (Error ''Unhandled action'')
   \<and> filter isError (log (snd (onMessage (callMessage updateEvent) readyClient))) = []"
  by (simp add: onMessage_def isReply_def callMessage_def plainData_def noInfo_def WEBSOCKET_defs
      handle_defs example_defs CallActions_defs Let_def updateEvent_def)

end
